theory Spec2Isabelle
  imports Complex_Main "HOL-Library.Sublist" "HOL-Library.Multiset"
begin

section \<open>JavaScript string primitives used by the tool\<close>

text \<open>
  Strings are lists of characters. \<open>endsWith\<close>, \<open>startsWith\<close> and \<open>includes\<close> are
  the methods of \<open>String.prototype\<close>; \<open>sliceEnd s n\<close> is \<open>s.slice(0, -n)\<close>, which
  yields the empty string when \<open>s\<close> is shorter than \<open>n\<close>.
\<close>

definition endsWith :: "string \<Rightarrow> string \<Rightarrow> bool" where
  "endsWith s searchString = suffix searchString s"

definition startsWith :: "string \<Rightarrow> string \<Rightarrow> bool" where
  "startsWith s searchString = prefix searchString s"

definition includes' :: "string \<Rightarrow> char \<Rightarrow> bool" where
  "includes' s c = (c \<in> set s)"

definition sliceEnd :: "string \<Rightarrow> nat \<Rightarrow> string" where
  "sliceEnd s n = take (length s - n) s"

section \<open>Path matcher (\<open>utils.isPathExcluded\<close>, \<open>utils.isExcluded\<close>)\<close>

text \<open>
  The wildcard branch builds the source of a regular expression with two global
  replacements applied one after the other:
  \<^verbatim>\<open>'^' + pattern.replace(/\*\*/g, '.*').replace(/\*/g, '[^/]*') + '$'\<close>.
  \<open>replaceAll_star_star\<close> is the first replacement (non-overlapping occurrences of two
  asterisks, left to right), \<open>replaceAll_star\<close> the second (every asterisk that is in
  the string by then, those written by the first replacement included).
\<close>

fun replaceAll_star_star :: "string \<Rightarrow> string" where
  "replaceAll_star_star (a # b # s) =
     (if a = CHR ''*'' \<and> b = CHR ''*'' then ''.*'' @ replaceAll_star_star s
      else a # replaceAll_star_star (b # s))"
| "replaceAll_star_star s = s"

fun replaceAll_star :: "string \<Rightarrow> string" where
  "replaceAll_star [] = []"
| "replaceAll_star (c # s) =
     (if c = CHR ''*'' then ''[^/]*'' @ replaceAll_star s else c # replaceAll_star s)"

text \<open>
  The regular expressions of the JavaScript engine are modelled on the fragment the
  tool's own patterns use. An expression is a sequence of atoms between the anchors
  \<open>^\<close> and \<open>$\<close>: a character that stands for itself, the dot (any character but a
  line terminator), and the class \<open>[^/]\<close> under a star. \<open>AnyStar\<close> (any run of
  characters) is produced by no source string of the tool; it is the atom the
  documented reading of two asterisks needs.

  \<open>parseSource\<close> reads a source of that fragment. For every other source the
  constructor \<open>new RegExp(source)\<close> is the engine's, and the engine is a parameter of
  the model: an \<open>engine\<close> maps a source to \<open>None\<close> when the constructor throws a
  \<open>SyntaxError\<close> on it, and else to the method \<open>test\<close> of the expression it builds.
  Every function that reaches the constructor takes the engine as its first argument
  and passes \<open>None\<close> on as the exception would pass.
  Characters are 8-bit code units, so the line terminators are line feed and carriage
  return.
\<close>

type_synonym engine = "string \<Rightarrow> (string \<Rightarrow> bool) option"

datatype atom = Lit char | AnyChar | NotSlashStar | AnyStar

definition syntaxCharacter :: "char \<Rightarrow> bool" where
  "syntaxCharacter c =
     (c \<in> {CHR 0x5C, CHR ''^'', CHR ''$'', CHR ''*'', CHR ''+'', CHR ''?'', CHR ''('', CHR '')'',
           CHR ''['', CHR '']'', CHR ''{'', CHR ''}'', CHR ''|''})"

fun parseAtoms :: "string \<Rightarrow> atom list option" where
  "parseAtoms [] = Some []"
| "parseAtoms (c # s) =
     (if c = CHR ''.'' then map_option (Cons AnyChar) (parseAtoms s)
      else if c = CHR ''['' then
        (if take 4 s = ''^/]*'' then map_option (Cons NotSlashStar) (parseAtoms (drop 4 s))
         else None)
      else if syntaxCharacter c then None
      else map_option (Cons (Lit c)) (parseAtoms s))"

definition parseSource :: "string \<Rightarrow> atom list option" where
  "parseSource source =
     (case source of
        [] \<Rightarrow> None
      | c # rest \<Rightarrow>
          if c = CHR ''^'' \<and> rest \<noteq> [] \<and> last rest = CHR ''$''
          then parseAtoms (butlast rest) else None)"

definition lineTerminator :: "char \<Rightarrow> bool" where
  "lineTerminator c = (c = CHR 0x0A \<or> c = CHR 0x0D)"

text \<open>\<open>test regex s\<close> is \<open>regex.test(s)\<close> for an anchored expression: the whole of
  \<open>s\<close> has to be consumed.\<close>

fun test :: "atom list \<Rightarrow> string \<Rightarrow> bool" where
  "test [] s = (s = [])"
| "test (Lit c # r) s = (case s of [] \<Rightarrow> False | x # t \<Rightarrow> x = c \<and> test r t)"
| "test (AnyChar # r) s =
     (case s of [] \<Rightarrow> False | x # t \<Rightarrow> \<not> lineTerminator x \<and> test r t)"
| "test (NotSlashStar # r) s =
     (test r s \<or>
      (case s of [] \<Rightarrow> False | x # t \<Rightarrow> x \<noteq> CHR ''/'' \<and> test (NotSlashStar # r) t))"
| "test (AnyStar # r) s =
     (test r s \<or> (case s of [] \<Rightarrow> False | x # t \<Rightarrow> test (AnyStar # r) t))"

text \<open>
  Sources on which every engine throws: no escape, no class but \<open>[^/]\<close>, an opening
  parenthesis and no closing one. The group is never closed, whatever else the source
  holds. The second argument says whether an opening parenthesis has been read.
\<close>

fun unterminatedGroup :: "string \<Rightarrow> bool \<Rightarrow> bool" where
  "unterminatedGroup [] opened = opened"
| "unterminatedGroup (c # s) opened =
     (if c = CHR ''['' then
        (if take 3 s = ''^/]'' then unterminatedGroup (drop 3 s) opened else False)
      else if c = CHR 0x5C \<or> c = CHR '')'' then False
      else if c = CHR ''('' then unterminatedGroup s True
      else unterminatedGroup s opened)"

text \<open>\<open>new RegExp(source)\<close>: the expression of the fragment where the source is one,
  a \<open>SyntaxError\<close> where the group is never closed, and the engine's answer
  otherwise. A compiled expression is represented by its method \<open>test\<close>.\<close>

definition RegExp :: "engine \<Rightarrow> string \<Rightarrow> (string \<Rightarrow> bool) option" where
  "RegExp js source =
     (case parseSource source of
        Some atoms \<Rightarrow> Some (test atoms)
      | None \<Rightarrow> if unterminatedGroup source False then None else js source)"

text \<open>The patterns whose source \<open>parseSource\<close> reads: apart from the asterisk they
  hold no syntax character of regular expressions (the dot is none of them here: it is
  the atom \<open>AnyChar\<close>).\<close>

definition withinFragment :: "string \<Rightarrow> bool" where
  "withinFragment pattern = list_all (\<lambda>c. c = CHR ''*'' \<or> \<not> syntaxCharacter c) pattern"

text \<open>The source string the wildcard branch hands to the constructor.\<close>

definition regexSource :: "string \<Rightarrow> string" where
  "regexSource pattern = ''^'' @ replaceAll_star (replaceAll_star_star pattern) @ ''$''"

text \<open>The parameter \<open>isDirectory\<close> is accepted and never read, as in the source; both
  arms of the test on \<open>dirName\<close> return the same expression there too.\<close>

definition isPathExcluded :: "engine \<Rightarrow> string \<Rightarrow> string \<Rightarrow> bool \<Rightarrow> bool option" where
  "isPathExcluded js itemPath pattern isDirectory =
     (if endsWith pattern ''/**'' then
        (let dirName = sliceEnd pattern 3 in
         if \<not> includes' dirName (CHR ''/'')
         then Some (itemPath = dirName \<or> startsWith itemPath (dirName @ ''/''))
         else Some (itemPath = dirName \<or> startsWith itemPath (dirName @ ''/'')))
      else if \<not> includes' pattern (CHR ''*'') then Some (itemPath = pattern)
      else
        (case RegExp js (regexSource pattern) of
           None \<Rightarrow> None
         | Some regex \<Rightarrow> Some (regex itemPath)))"

text \<open>The patterns on which the matcher throws: those it compiles and the constructor
  refuses.\<close>

definition throwsOn :: "engine \<Rightarrow> string \<Rightarrow> bool" where
  "throwsOn js pattern =
     (\<not> endsWith pattern ''/**'' \<and> includes' pattern (CHR ''*'')
      \<and> Option.is_none (RegExp js (regexSource pattern)))"

text \<open>\<open>excludePatterns.some(...)\<close>: the patterns are tried in order and the first
  match ends the search, so a pattern after a match is never compiled.\<close>

fun isExcluded :: "engine \<Rightarrow> string \<Rightarrow> string list \<Rightarrow> bool \<Rightarrow> bool option" where
  "isExcluded js itemPath [] isDirectory = Some False"
| "isExcluded js itemPath (pattern # excludePatterns) isDirectory =
     (case isPathExcluded js itemPath pattern isDirectory of
        None \<Rightarrow> None
      | Some matched \<Rightarrow>
          if matched then Some True else isExcluded js itemPath excludePatterns isDirectory)"

text \<open>
  An engine for examples. It knows one source outside the fragment, that of the
  pattern \<open>*.js?\<close> (a run without separator, any character, the letter j and an
  optional s), and throws on every other source.
\<close>

definition exampleEngine :: engine where
  "exampleEngine source =
     (if source = ''^[^/]*.js?$''
      then Some (\<lambda>s. test [NotSlashStar, AnyChar, Lit (CHR ''j''), Lit (CHR ''s'')] s
                    \<or> test [NotSlashStar, AnyChar, Lit (CHR ''j'')] s)
      else None)"

text \<open>An engine that accepts every source left to it.\<close>

definition lenientEngine :: engine where
  "lenientEngine source = Some (\<lambda>s. False)"

text \<open>
  The documented reading of a wildcard pattern, written from the specification and used
  only to compare the code with it: every character but the asterisk is escaped (it
  stands for itself), two asterisks match any characters, the path separator included,
  and a single asterisk matches any characters but the separator.
\<close>

fun spec_regex :: "string \<Rightarrow> atom list" where
  "spec_regex (a # b # s) =
     (if a = CHR ''*'' \<and> b = CHR ''*'' then AnyStar # spec_regex s
      else if a = CHR ''*'' then NotSlashStar # spec_regex (b # s)
      else Lit a # spec_regex (b # s))"
| "spec_regex [a] = (if a = CHR ''*'' then [NotSlashStar] else [Lit a])"
| "spec_regex [] = []"

text \<open>What the code's expression is for a pattern with no two adjacent asterisks, one
  atom per character: the asterisk, the unescaped dot, and any other character.\<close>

definition atomOf :: "char \<Rightarrow> atom" where
  "atomOf c = (if c = CHR ''*'' then NotSlashStar else if c = CHR ''.'' then AnyChar else Lit c)"

section \<open>Entries and the size estimator (\<open>estimateFinalSize\<close>)\<close>

text \<open>
  An item of the scan. Sizes are byte counts; JavaScript numbers are exact on integers
  below \<open>2^53\<close>, and the model computes with unbounded integers. \<open>size'\<close> is
  the field \<open>size\<close>; the field \<open>prettySize\<close> is a display string and is left out.
\<close>

record item =
  path :: string
  isDirectory :: bool
  size' :: int

text \<open>The body of \<open>items.forEach\<close>, with \<open>totalSize\<close> as the accumulator.\<close>

fun forEach_totalSize :: "engine \<Rightarrow> item list \<Rightarrow> string list \<Rightarrow> int \<Rightarrow> int option" where
  "forEach_totalSize js [] excludePatterns totalSize = Some totalSize"
| "forEach_totalSize js (it # items) excludePatterns totalSize =
     (if isDirectory it then forEach_totalSize js items excludePatterns totalSize
      else
        (case isExcluded js (path it) excludePatterns False of
           None \<Rightarrow> None
         | Some excluded \<Rightarrow>
             if excluded then forEach_totalSize js items excludePatterns totalSize
             else forEach_totalSize js items excludePatterns (totalSize + size' it)))"

definition markdownOverhead :: "item list \<Rightarrow> int" where
  "markdownOverhead items = min (int (length items) * 100) (50 * 1024)"

definition estimateFinalSize :: "engine \<Rightarrow> item list \<Rightarrow> string list \<Rightarrow> int option" where
  "estimateFinalSize js items excludePatterns =
     (case forEach_totalSize js items excludePatterns 0 of
        None \<Rightarrow> None
      | Some totalSize \<Rightarrow> Some (totalSize + markdownOverhead items))"

text \<open>The entries whose size the estimate sums: the files that no pattern matches.\<close>

definition counted :: "engine \<Rightarrow> string list \<Rightarrow> item \<Rightarrow> bool" where
  "counted js excludePatterns it =
     (\<not> isDirectory it \<and>
      \<not> list_ex (\<lambda>pattern. isPathExcluded js (path it) pattern False = Some True)
           excludePatterns)"

section \<open>Selection choices and the auto-exclusion planner\<close>

text \<open>
  A file choice of the selection list, with the fields the planner reads (\<open>name\<close> and
  \<open>short\<close> are display strings): \<open>value'\<close> is its field \<open>value\<close> and \<open>csize\<close>
  its field \<open>size\<close>. A directory choice has no size; it is the pair of its value and
  its \<open>checked\<close> flag. \<open>Array.prototype.sort\<close> is stable, and so is
  \<open>sort_key\<close>; the comparator \<open>b.size - a.size\<close> orders by descending size.
\<close>

record choice =
  value' :: string
  csize :: int
  checked :: bool

fun mapThrowing :: "('a \<Rightarrow> 'b option) \<Rightarrow> 'a list \<Rightarrow> 'b list option" where
  "mapThrowing f [] = Some []"
| "mapThrowing f (x # xs) =
     (case f x of
        None \<Rightarrow> None
      | Some y \<Rightarrow> (case mapThrowing f xs of None \<Rightarrow> None | Some ys \<Rightarrow> Some (y # ys)))"

definition fileChoice :: "engine \<Rightarrow> string list \<Rightarrow> item \<Rightarrow> choice option" where
  "fileChoice js allExcludes it =
     map_option (\<lambda>c. \<lparr>value' = path it, csize = size' it, checked = c\<rparr>)
       (isExcluded js (path it) allExcludes False)"

definition directoryChoice :: "engine \<Rightarrow> string list \<Rightarrow> item \<Rightarrow> (string \<times> bool) option" where
  "directoryChoice js allExcludes it =
     map_option (\<lambda>c. (path it @ ''/**'', c)) (isExcluded js (path it) allExcludes True)"

definition createSelectionChoices ::
    "engine \<Rightarrow> item list \<Rightarrow> string list \<Rightarrow> (choice list \<times> (string \<times> bool) list) option" where
  "createSelectionChoices js items allExcludes =
     (case mapThrowing (fileChoice js allExcludes)
             (sort_key (\<lambda>a. - size' a) (filter (\<lambda>it. \<not> isDirectory it) items)) of
        None \<Rightarrow> None
      | Some fileChoices \<Rightarrow>
          (case mapThrowing (directoryChoice js allExcludes)
                  (sort_key (\<lambda>a. - size' a) (filter (\<lambda>it. isDirectory it) items)) of
             None \<Rightarrow> None
           | Some directoryChoices \<Rightarrow> Some (fileChoices, directoryChoices)))"

text \<open>
  The loop of \<open>autoExcludeFiles\<close> over \<open>filesToConsider\<close>; its state is the pair of
  \<open>autoExcluded\<close> and \<open>remainingSize\<close>. \<open>targetSize\<close> is \<open>sizeLimit * 0.95\<close>. The
  engine rounds that product to a double; for an integer limit below \<open>2^48\<close> bytes
  the rounding never crosses an integer, so the comparison with the integer
  \<open>remainingSize\<close> is the exact one made here. The loop also sets \<open>checked\<close> on
  each chosen choice object, which only the selection list displayed afterwards reads.
\<close>

fun autoExclude_loop :: "choice list \<Rightarrow> real \<Rightarrow> string list \<times> int \<Rightarrow> string list \<times> int" where
  "autoExclude_loop [] targetSize (autoExcluded, remainingSize) = (autoExcluded, remainingSize)"
| "autoExclude_loop (file # files) targetSize (autoExcluded, remainingSize) =
     (if real_of_int remainingSize > targetSize
      then autoExclude_loop files targetSize
             (autoExcluded @ [value' file], remainingSize - csize file)
      else (autoExcluded, remainingSize))"

text \<open>The function returns \<open>autoExcluded\<close>; the second component is the
  \<open>remainingSize\<close> it logs as the new estimated size. \<open>filesToConsider\<close> is the
  local constant of that name: the unchecked choices, largest first.\<close>

definition filesToConsider :: "choice list \<Rightarrow> choice list" where
  "filesToConsider choices = sort_key (\<lambda>c. - csize c) (filter (\<lambda>c. \<not> checked c) choices)"

definition autoExcludeFiles :: "choice list \<Rightarrow> int \<Rightarrow> int \<Rightarrow> bool \<Rightarrow> string list \<times> int" where
  "autoExcludeFiles choices initialSize sizeLimit autoExclude =
     (if autoExclude \<and> initialSize > sizeLimit then
        (let targetSize = real_of_int sizeLimit * 0.95
         in autoExclude_loop (filesToConsider choices) targetSize ([], initialSize))
      else ([], initialSize))"

section \<open>Reconciliation of the selection (\<open>processUnselectedAutoExcludes\<close>, \<open>main\<close>)\<close>

definition processUnselectedAutoExcludes :: "string list \<Rightarrow> string list \<Rightarrow> string list" where
  "processUnselectedAutoExcludes autoExcluded selectedExcludes =
     filter (\<lambda>it. it \<notin> set selectedExcludes) autoExcluded"

definition finalExcludes :: "string list \<Rightarrow> string list \<Rightarrow> string list \<Rightarrow> string list" where
  "finalExcludes defaultExcludes extraExcludes selectedExcludes =
     defaultExcludes @ extraExcludes @ selectedExcludes"

text \<open>\<open>Array.from(new Set(xs))\<close>: a set keeps its elements in insertion order, and
  adding an element it already holds changes nothing.\<close>

definition Set_add :: "'a list \<Rightarrow> 'a \<Rightarrow> 'a list" where
  "Set_add s x = (if x \<in> set s then s else s @ [x])"

definition Array_from_Set :: "'a list \<Rightarrow> 'a list" where
  "Array_from_Set xs = foldl Set_add [] xs"

definition dedupedExcludes :: "string list \<Rightarrow> string list \<Rightarrow> string list \<Rightarrow> string list" where
  "dedupedExcludes defaultExcludes extraExcludes selectedExcludes =
     Array_from_Set (finalExcludes defaultExcludes extraExcludes selectedExcludes)"

text \<open>Deduplication that keeps the first occurrence, written from the specification.\<close>

fun spec_dedup :: "'a list \<Rightarrow> 'a list" where
  "spec_dedup [] = []"
| "spec_dedup (x # xs) = x # filter (\<lambda>y. y \<noteq> x) (spec_dedup xs)"

section \<open>The file system and the scanner (\<open>utils.getDirSize\<close>, \<open>scanDirectory\<close>)\<close>

text \<open>
  The file system below the scanned root is a finite tree (links that form a cycle are
  outside the model). A node says what \<open>fs.statSync\<close> and \<open>fs.readdirSync\<close> do at
  its path:
  \<^item> \<open>File n\<close>: \<open>statSync\<close> succeeds, the object is not a directory and has \<open>n\<close> bytes;
  \<^item> \<open>Dir entries\<close>: \<open>statSync\<close> succeeds on a directory and \<open>readdirSync\<close> returns
    the names of \<open>entries\<close>, in this order;
  \<^item> \<open>UnreadableDir\<close>: \<open>statSync\<close> succeeds on a directory and \<open>readdirSync\<close> throws;
  \<^item> \<open>Inaccessible\<close>: \<open>statSync\<close> throws (and so does \<open>readdirSync\<close>).
\<close>

datatype fsnode =
    File int
  | Dir "(string \<times> fsnode) list"
  | UnreadableDir
  | Inaccessible

record stats =
  stat_isDirectory :: bool
  stat_size :: int

fun statSync :: "fsnode \<Rightarrow> stats option" where
  "statSync (File n) = Some \<lparr>stat_isDirectory = False, stat_size = n\<rparr>"
| "statSync (Dir entries) = Some \<lparr>stat_isDirectory = True, stat_size = 0\<rparr>"
| "statSync UnreadableDir = Some \<lparr>stat_isDirectory = True, stat_size = 0\<rparr>"
| "statSync Inaccessible = None"


text \<open>\<open>path.join(baseDir, entry)\<close> for an entry name as \<open>readdirSync\<close> returns it
  (not empty, no separator in it) and a base that is empty or was joined that way.\<close>

definition path_join :: "string \<Rightarrow> string \<Rightarrow> string" where
  "path_join baseDir entry = (if baseDir = [] then entry else baseDir @ ''/'' @ entry)"

text \<open>\<open>getDirSize\<close> swallows both exceptions without a message: a directory it cannot
  read counts 0, an entry it cannot stat is left out of the sum.\<close>

fun getDirSize :: "fsnode \<Rightarrow> int"
  and getDirSize_entries :: "(string \<times> fsnode) list \<Rightarrow> int" where
  "getDirSize (Dir entries) = getDirSize_entries entries"
| "getDirSize (File n) = 0"
| "getDirSize UnreadableDir = 0"
| "getDirSize Inaccessible = 0"
| "getDirSize_entries [] = 0"
| "getDirSize_entries ((entry, node) # entries) =
     (case statSync node of
        None \<Rightarrow> 0
      | Some st \<Rightarrow> if stat_isDirectory st then getDirSize node else stat_size st)
     + getDirSize_entries entries"

datatype warning = CouldNotAccess string | CouldNotReadDirectory string

definition shouldSkip :: "string list \<Rightarrow> string \<Rightarrow> string \<Rightarrow> string \<Rightarrow> bool" where
  "shouldSkip skipDirs entry baseDir relativePath =
     list_ex (\<lambda>skipPath.
        if \<not> includes' skipPath (CHR ''/'') then entry = skipPath \<and> baseDir = []
        else relativePath = skipPath) skipDirs"

text \<open>
  The inner function \<open>scan(dir, baseDir)\<close>. It returns the items it pushes, in the order
  of the pushes, and the warnings it logs (a warning carries the path relative to the
  root where the message has the full path and the text of the exception).
  \<open>scan\<close> is the call itself, whose \<open>readdirSync\<close> succeeds on \<open>Dir\<close> alone;
  \<open>scan_entries\<close> is the loop over the entries.
\<close>

fun scan :: "fsnode \<Rightarrow> string \<Rightarrow> string list \<Rightarrow> item list \<times> warning list"
  and scan_entries :: "(string \<times> fsnode) list \<Rightarrow> string \<Rightarrow> string list \<Rightarrow> item list \<times> warning list"
  where
  "scan (Dir entries) baseDir skipDirs = scan_entries entries baseDir skipDirs"
| "scan (File n) baseDir skipDirs = ([], [CouldNotReadDirectory baseDir])"
| "scan UnreadableDir baseDir skipDirs = ([], [CouldNotReadDirectory baseDir])"
| "scan Inaccessible baseDir skipDirs = ([], [CouldNotReadDirectory baseDir])"
| "scan_entries [] baseDir skipDirs = ([], [])"
| "scan_entries ((entry, node) # entries) baseDir skipDirs =
     (let relativePath = path_join baseDir entry;
          this =
            (case statSync node of
               None \<Rightarrow> ([], [CouldNotAccess relativePath])
             | Some st \<Rightarrow>
                 if stat_isDirectory st then
                   (if shouldSkip skipDirs entry baseDir relativePath
                    then ([\<lparr>path = relativePath, isDirectory = True, size' = 0\<rparr>], [])
                    else
                      (let below = scan node relativePath skipDirs
                       in (\<lparr>path = relativePath, isDirectory = True, size' = getDirSize node\<rparr>
                             # fst below, snd below)))
                 else ([\<lparr>path = relativePath, isDirectory = False, size' = stat_size st\<rparr>], []));
          others = scan_entries entries baseDir skipDirs
      in (fst this @ fst others, snd this @ snd others))"

definition scanDirectory :: "fsnode \<Rightarrow> string list \<Rightarrow> item list \<times> warning list" where
  "scanDirectory rootDir skipDirs =
     (let scanned = scan rootDir [] skipDirs
      in (sort_key (\<lambda>a. - size' a) (fst scanned), snd scanned))"

text \<open>
  The entries the scanner meets: those of the root, and those of every directory it
  descends into, which is a directory entry it has met, could list, and did not skip.
  \<open>encountered skipDirs rootDir baseDir entry node\<close> says that the loop of
  \<open>scan\<close> runs on \<open>entry\<close> with this \<open>baseDir\<close>.
\<close>

inductive encountered :: "string list \<Rightarrow> fsnode \<Rightarrow> string \<Rightarrow> string \<Rightarrow> fsnode \<Rightarrow> bool"
  for skipDirs :: "string list" where
  top: "(entry, node) \<in> set entries \<Longrightarrow> encountered skipDirs (Dir entries) [] entry node"
| below: "encountered skipDirs rootDir baseDir entry (Dir sub) \<Longrightarrow>
          \<not> shouldSkip skipDirs entry baseDir (path_join baseDir entry) \<Longrightarrow>
          (entry', node') \<in> set sub \<Longrightarrow>
          encountered skipDirs rootDir (path_join baseDir entry) entry' node'"

code_pred encountered .

text \<open>Names as a file system has them: not empty and without the separator.\<close>

fun validNames :: "fsnode \<Rightarrow> bool"
  and validNames_entries :: "(string \<times> fsnode) list \<Rightarrow> bool" where
  "validNames (Dir entries) = validNames_entries entries"
| "validNames (File n) = True"
| "validNames UnreadableDir = True"
| "validNames Inaccessible = True"
| "validNames_entries [] = True"
| "validNames_entries ((entry, node) # entries) =
     (entry \<noteq> [] \<and> CHR ''/'' \<notin> set entry \<and> validNames node \<and> validNames_entries entries)"

section \<open>Configuration (\<open>CONFIG\<close>, \<open>prepareExcludePatterns\<close>)\<close>

definition COMMON_EXCLUDE_DIRS :: "string list" where
  "COMMON_EXCLUDE_DIRS =
     [''node_modules'', ''.git'', ''vendor'', ''.next'', ''dist'', ''build'', ''.husky'',
      ''public'', ''docs'', ''assets/fonts'', ''assets/images'', ''assets/svg'',
      ''src/assets/images'', ''assets/icons'', ''languages'', ''images'', ''tests'']"

definition COMMON_EXCLUDE_FILES :: "string list" where
  "COMMON_EXCLUDE_FILES =
     [''screenshot.png'', ''screenshot.jpg'', ''package-lock.json'', ''composer.lock'',
      ''yarn.lock'', ''*.min.js'', ''*.min.css'']"

definition defaultExcludes :: "string list" where
  "defaultExcludes = map (\<lambda>dir. dir @ ''/**'') COMMON_EXCLUDE_DIRS @ COMMON_EXCLUDE_FILES"

section \<open>Properties of the path matcher\<close>

lemma suffix_star_needs_star: "suffix ''/**'' pattern \<Longrightarrow> CHR ''*'' \<in> set pattern"
  by (auto simp: suffix_def)

lemma isPathExcluded_subtree:
  "isPathExcluded js itemPath (dirName @ ''/**'') isDir =
     Some (itemPath = dirName \<or> prefix (dirName @ ''/'') itemPath)"
proof -
  have "suffix ''/**'' (dirName @ ''/**'')" by (rule suffixI) simp
  then show ?thesis
    by (simp add: isPathExcluded_def endsWith_def sliceEnd_def startsWith_def Let_def)
qed

lemma isPathExcluded_literal:
  "CHR ''*'' \<notin> set pattern \<Longrightarrow> isPathExcluded js itemPath pattern isDir = Some (itemPath = pattern)"
  using suffix_star_needs_star [of pattern]
  by (auto simp: isPathExcluded_def endsWith_def includes'_def)

lemma fragment_replaceAll_star_star:
  "list_all (\<lambda>c. c = CHR ''*'' \<or> \<not> syntaxCharacter c) s \<Longrightarrow>
   list_all (\<lambda>c. c = CHR ''*'' \<or> \<not> syntaxCharacter c) (replaceAll_star_star s)"
  by (induction s rule: replaceAll_star_star.induct) (auto simp: syntaxCharacter_def)

lemma parseAtoms_replaceAll_star:
  "list_all (\<lambda>c. c = CHR ''*'' \<or> \<not> syntaxCharacter c) s \<Longrightarrow>
   parseAtoms (replaceAll_star s) = Some (map atomOf s)"
proof (induction s)
  case Nil
  show ?case by simp
next
  case (Cons c s)
  then have ih: "parseAtoms (replaceAll_star s) = Some (map atomOf s)" by simp
  show ?case
  proof (cases "c = CHR ''*''")
    case True
    then show ?thesis using ih by (simp add: atomOf_def syntaxCharacter_def)
  next
    case False
    with Cons.prems have "\<not> syntaxCharacter c" by simp
    then have "c \<noteq> CHR ''[''" by (auto simp: syntaxCharacter_def)
    with False \<open>\<not> syntaxCharacter c\<close> ih show ?thesis by (simp add: atomOf_def)
  qed
qed

lemma parseSource_anchored: "parseSource (''^'' @ body @ ''$'') = parseAtoms body"
  by (simp add: parseSource_def)

lemma RegExp_fragment:
  "parseAtoms body = Some atoms \<Longrightarrow> RegExp js (''^'' @ body @ ''$'') = Some (test atoms)"
  by (simp only: RegExp_def parseSource_anchored option.case)

lemma isPathExcluded_throws:
  "(isPathExcluded js itemPath pattern isDir = None) = throwsOn js pattern"
  by (auto simp: isPathExcluded_def throwsOn_def Let_def includes'_def Option.is_none_def
        split: option.splits)

lemma isPathExcluded_wildcard:
  assumes "withinFragment pattern" "\<not> endsWith pattern ''/**''" "CHR ''*'' \<in> set pattern"
  shows "isPathExcluded js itemPath pattern isDir =
           Some (test (map atomOf (replaceAll_star_star pattern)) itemPath)"
proof -
  have "parseAtoms (replaceAll_star (replaceAll_star_star pattern)) =
          Some (map atomOf (replaceAll_star_star pattern))"
    using assms(1) by (simp add: withinFragment_def parseAtoms_replaceAll_star fragment_replaceAll_star_star)
  then have "RegExp js (regexSource pattern) =
          Some (test (map atomOf (replaceAll_star_star pattern)))"
    unfolding regexSource_def by (rule RegExp_fragment)
  then show ?thesis using assms(2,3) by (simp add: isPathExcluded_def includes'_def)
qed

lemma isPathExcluded_defined:
  assumes "withinFragment pattern"
  shows "isPathExcluded js itemPath pattern isDir \<noteq> None"
proof (cases "endsWith pattern ''/**''")
  case True
  then show ?thesis by (simp add: isPathExcluded_def Let_def)
next
  case False
  show ?thesis
  proof (cases "CHR ''*'' \<in> set pattern")
    case True
    with assms False show ?thesis by (simp add: isPathExcluded_wildcard)
  next
    case False
    then show ?thesis by (simp add: isPathExcluded_literal)
  qed
qed

text \<open>
  Claim C7. For a pattern that ends in \<open>/**\<close>, with \<open>dirName\<close> the pattern without
  that suffix, the matcher answers true exactly when the path is \<open>dirName\<close> or starts
  with \<open>dirName\<close> followed by a separator, whatever \<open>dirName\<close> is (a top-level name
  or a nested path). For \<open>src/**\<close>: \<open>src/index.ts\<close> and \<open>src\<close> match,
  \<open>srcx/index.ts\<close> does not.
\<close>

theorem isPathExcluded_directory_pattern:
  "isPathExcluded js itemPath (dirName @ ''/**'') isDir =
     Some (itemPath = dirName \<or> (\<exists>rest. itemPath = dirName @ ''/'' @ rest))
   \<and> isPathExcluded js ''src/index.ts'' ''src/**'' False = Some True
   \<and> isPathExcluded js ''src'' ''src/**'' False = Some True
   \<and> isPathExcluded js ''srcx/index.ts'' ''src/**'' False = Some False"
proof -
  have "isPathExcluded js itemPath (dirName @ ''/**'') isDir =
     Some (itemPath = dirName \<or> (\<exists>rest. itemPath = dirName @ ''/'' @ rest))"
    by (auto simp: isPathExcluded_subtree prefix_def)
  moreover have "isPathExcluded js ''src/index.ts'' ''src/**'' False = Some True" by code_simp
  moreover have "isPathExcluded js ''src'' ''src/**'' False = Some True" by code_simp
  moreover have "isPathExcluded js ''srcx/index.ts'' ''src/**'' False = Some False" by code_simp
  ultimately show ?thesis by blast
qed

theorem isPathExcluded_directory_pattern_witness:
  "isPathExcluded exampleEngine ''a/b/c/d.txt'' ''a/b/**'' True = Some True"
  using isPathExcluded_directory_pattern [of exampleEngine "''a/b/c/d.txt''" "''a/b''" True] by simp

text \<open>
  Claim C8. For a pattern without an asterisk the matcher answers true exactly when the
  path is the pattern, character for character. The pattern \<open>package-lock.json\<close>
  matches the path \<open>package-lock.json\<close> and not \<open>sub/package-lock.json\<close>.
\<close>

theorem isPathExcluded_literal_pattern:
  "(CHR ''*'' \<notin> set pattern \<longrightarrow>
      isPathExcluded js itemPath pattern isDir = Some (itemPath = pattern))
   \<and> isPathExcluded js ''package-lock.json'' ''package-lock.json'' False = Some True
   \<and> isPathExcluded js ''sub/package-lock.json'' ''package-lock.json'' False = Some False"
proof -
  have "CHR ''*'' \<notin> set pattern \<longrightarrow>
      isPathExcluded js itemPath pattern isDir = Some (itemPath = pattern)"
    by (simp add: isPathExcluded_literal)
  moreover have "isPathExcluded js ''package-lock.json'' ''package-lock.json'' False = Some True"
    by code_simp
  moreover have "isPathExcluded js ''sub/package-lock.json'' ''package-lock.json'' False = Some False"
    by code_simp
  ultimately show ?thesis by blast
qed

theorem isPathExcluded_literal_pattern_witness:
  "isPathExcluded exampleEngine ''yarn.lock'' ''yarn.lock'' False = Some True
   \<and> isPathExcluded exampleEngine ''a/yarn.lock'' ''yarn.lock'' False = Some False"
proof -
  have h: "CHR ''*'' \<notin> set ''yarn.lock''" by simp
  from isPathExcluded_literal_pattern [of "''yarn.lock''" exampleEngine "''yarn.lock''" False] h
  have a: "isPathExcluded exampleEngine ''yarn.lock'' ''yarn.lock'' False = Some True" by simp
  from isPathExcluded_literal_pattern [of "''yarn.lock''" exampleEngine "''a/yarn.lock''" False] h
  have b: "isPathExcluded exampleEngine ''a/yarn.lock'' ''yarn.lock'' False = Some False" by simp
  from a b show ?thesis by blast
qed

section \<open>Wildcard patterns\<close>

lemma no_double_star_replace:
  "\<not> sublist ''**'' s \<Longrightarrow> replaceAll_star_star s = s"
proof (induction s rule: replaceAll_star_star.induct)
  case (1 a b s)
  have "\<not> (a = CHR ''*'' \<and> b = CHR ''*'')"
  proof
    assume "a = CHR ''*'' \<and> b = CHR ''*''"
    then have "a # b # s = [] @ ''**'' @ s" by simp
    then have "sublist ''**'' (a # b # s)" unfolding sublist_def by blast
    with 1(3) show False by simp
  qed
  moreover have "\<not> sublist ''**'' (b # s)"
    using 1(3) by (auto simp: sublist_Cons_right)
  ultimately show ?case using 1(2) by auto
qed simp_all

lemma spec_regex_atomOf:
  "\<not> sublist ''**'' s \<Longrightarrow> CHR ''.'' \<notin> set s \<Longrightarrow> spec_regex s = map atomOf s"
proof (induction s rule: spec_regex.induct)
  case (1 a b s)
  have nd: "\<not> (a = CHR ''*'' \<and> b = CHR ''*'')"
  proof
    assume "a = CHR ''*'' \<and> b = CHR ''*''"
    then have "a # b # s = [] @ ''**'' @ s" by simp
    then have "sublist ''**'' (a # b # s)" unfolding sublist_def by blast
    with 1(4) show False by simp
  qed
  moreover have "\<not> sublist ''**'' (b # s)"
    using 1(4) by (auto simp: sublist_Cons_right)
  ultimately show ?case using 1 by (auto simp: atomOf_def)
qed (simp_all add: atomOf_def)

text \<open>
  Claim C1, as stated, fails on the code. The claim says that \<open>**/*.min.js\<close> matches
  \<open>app.min.js\<close>; the separator after the two asterisks is a literal of the
  expression, and the path has none. The claim says that the characters of the pattern
  are escaped; the code escapes nothing, so the dots of \<open>*.min.js\<close> match any
  character. The claim says that two asterisks match across separators; the second
  replacement rewrites the asterisk of the \<open>.*\<close> that the first one wrote, and the
  expression for two asterisks is one arbitrary character followed by characters other
  than the separator.
\<close>

theorem wildcard_claim_counterexample:
  "isPathExcluded exampleEngine ''app.min.js'' ''**/*.min.js'' False = Some False
   \<and> isPathExcluded exampleEngine ''appXminXjs'' ''*.min.js'' False = Some True
   \<and> \<not> test (spec_regex ''*.min.js'') ''appXminXjs''
   \<and> isPathExcluded exampleEngine ''a/b/app.min.js'' ''**/*.min.js'' False = Some False
   \<and> test (spec_regex ''**/*.min.js'') ''a/b/app.min.js''"
  by code_simp

text \<open>
  Claim C1, amended. For a pattern of the modelled fragment that holds an asterisk, does
  not end in \<open>/**\<close> and has no two adjacent asterisks, the matcher answers true
  exactly when the path is accepted by the anchored expression that reads every asterisk
  as a run of characters other than the separator, every dot as any one character but a
  line terminator, and every other character as itself; when the pattern has no dot
  this is the expression of the documented reading. \<open>*.min.js\<close> matches
  \<open>app.min.js\<close> and not \<open>sub/app.min.js\<close>; \<open>**/*.min.js\<close> matches
  \<open>sub/app.min.js\<close> and not \<open>app.min.js\<close>.
\<close>

theorem isPathExcluded_wildcard_pattern:
  "(withinFragment pattern \<and> CHR ''*'' \<in> set pattern \<and> \<not> endsWith pattern ''/**''
      \<and> \<not> sublist ''**'' pattern \<longrightarrow>
        isPathExcluded js itemPath pattern isDir = Some (test (map atomOf pattern) itemPath)
        \<and> (CHR ''.'' \<notin> set pattern \<longrightarrow>
             isPathExcluded js itemPath pattern isDir = Some (test (spec_regex pattern) itemPath)))
   \<and> isPathExcluded js ''app.min.js'' ''*.min.js'' False = Some True
   \<and> isPathExcluded js ''sub/app.min.js'' ''*.min.js'' False = Some False
   \<and> isPathExcluded js ''sub/app.min.js'' ''**/*.min.js'' False = Some True
   \<and> isPathExcluded js ''app.min.js'' ''**/*.min.js'' False = Some False"
proof -
  have a: "withinFragment pattern \<and> CHR ''*'' \<in> set pattern \<and> \<not> endsWith pattern ''/**''
      \<and> \<not> sublist ''**'' pattern \<longrightarrow>
        isPathExcluded js itemPath pattern isDir = Some (test (map atomOf pattern) itemPath)
        \<and> (CHR ''.'' \<notin> set pattern \<longrightarrow>
             isPathExcluded js itemPath pattern isDir = Some (test (spec_regex pattern) itemPath))"
    using isPathExcluded_wildcard [of pattern js itemPath isDir]
    by (auto simp: no_double_star_replace spec_regex_atomOf)
  have b: "isPathExcluded js ''app.min.js'' ''*.min.js'' False = Some True" by code_simp
  have c: "isPathExcluded js ''sub/app.min.js'' ''*.min.js'' False = Some False" by code_simp
  have d: "isPathExcluded js ''sub/app.min.js'' ''**/*.min.js'' False = Some True" by code_simp
  have e: "isPathExcluded js ''app.min.js'' ''**/*.min.js'' False = Some False" by code_simp
  from a b c d e show ?thesis by blast
qed

theorem isPathExcluded_wildcard_pattern_witness:
  "isPathExcluded exampleEngine ''site.min.css'' ''*.min.css'' False = Some True
   \<and> isPathExcluded exampleEngine ''css/site.min.css'' ''*.min.css'' False = Some False
   \<and> isPathExcluded exampleEngine ''notes-draft'' ''notes-*'' False = Some (test (spec_regex ''notes-*'') ''notes-draft'')"
proof -
  have h: "withinFragment ''*.min.css'' \<and> CHR ''*'' \<in> set ''*.min.css''
      \<and> \<not> endsWith ''*.min.css'' ''/**'' \<and> \<not> sublist ''**'' ''*.min.css''"
    by code_simp
  have t1: "test (map atomOf ''*.min.css'') ''site.min.css''" by code_simp
  have t2: "\<not> test (map atomOf ''*.min.css'') ''css/site.min.css''" by code_simp
  from isPathExcluded_wildcard_pattern [where pattern = "''*.min.css''" and itemPath = "''site.min.css''" and isDir = False] h t1
  have p1: "isPathExcluded exampleEngine ''site.min.css'' ''*.min.css'' False = Some True" by simp
  from isPathExcluded_wildcard_pattern [where pattern = "''*.min.css''" and itemPath = "''css/site.min.css''" and isDir = False] h t2
  have p2: "isPathExcluded exampleEngine ''css/site.min.css'' ''*.min.css'' False = Some False" by simp
  have h': "withinFragment ''notes-*'' \<and> CHR ''*'' \<in> set ''notes-*''
      \<and> \<not> endsWith ''notes-*'' ''/**'' \<and> \<not> sublist ''**'' ''notes-*''"
    by code_simp
  have nd: "CHR ''.'' \<notin> set ''notes-*''" by simp
  from isPathExcluded_wildcard_pattern [where pattern = "''notes-*''" and itemPath = "''notes-draft''" and isDir = False] h' nd
  have p3: "isPathExcluded exampleEngine ''notes-draft'' ''notes-*'' False = Some (test (spec_regex ''notes-*'') ''notes-draft'')"
    by blast
  from p1 p2 p3 show ?thesis by blast
qed

section \<open>Properties of the reconciliation\<close>

lemma spec_dedup_filter: "spec_dedup (filter P xs) = filter P (spec_dedup xs)"
proof (induction xs)
  case Nil
  show ?case by simp
next
  case (Cons x xs)
  show ?case
  proof (cases "P x")
    case True
    then show ?thesis using Cons by (simp add: conj_commute)
  next
    case False
    then have "filter (\<lambda>y. y \<noteq> x \<and> P y) (spec_dedup xs) = filter P (spec_dedup xs)"
      by (auto intro: filter_cong)
    with False Cons show ?thesis by simp
  qed
qed

lemma foldl_Set_add:
  "foldl Set_add acc xs = acc @ spec_dedup (filter (\<lambda>x. x \<notin> set acc) xs)"
proof (induction xs arbitrary: acc)
  case Nil
  show ?case by simp
next
  case (Cons x xs)
  show ?case
  proof (cases "x \<in> set acc")
    case True
    then show ?thesis using Cons [of acc] by (simp add: Set_add_def)
  next
    case False
    have "filter (\<lambda>y. y \<notin> set (acc @ [x])) xs =
          filter (\<lambda>y. y \<noteq> x) (filter (\<lambda>y. y \<notin> set acc) xs)"
      by (auto intro: filter_cong)
    then show ?thesis using False Cons [of "acc @ [x]"]
      by (simp add: Set_add_def spec_dedup_filter)
  qed
qed

lemma Array_from_Set_spec: "Array_from_Set xs = spec_dedup xs"
  by (simp add: Array_from_Set_def foldl_Set_add)

lemma set_spec_dedup: "set (spec_dedup xs) = set xs"
  by (induction xs) auto

lemma distinct_spec_dedup: "distinct (spec_dedup xs)"
  by (induction xs) (auto simp: set_spec_dedup)

text \<open>
  Claim C5. The list handed to the command builder is the concatenation of the default
  excludes, the extra excludes and the human's selection with duplicates removed, the
  first occurrence kept. The values reported as overridden are exactly the
  auto-excluded values that are not in the selection. When the planner chose \<open>A\<close> and
  \<open>B\<close> and the human kept only \<open>A\<close>, the report is \<open>B\<close>, and \<open>B\<close> is not in the
  final list unless the default or extra excludes hold it.
\<close>

theorem reconcile_dedup_and_overridden:
  "dedupedExcludes defaultEx extraEx selectedEx = spec_dedup (defaultEx @ extraEx @ selectedEx)
   \<and> distinct (dedupedExcludes defaultEx extraEx selectedEx)
   \<and> set (dedupedExcludes defaultEx extraEx selectedEx)
       = set defaultEx \<union> set extraEx \<union> set selectedEx
   \<and> set (processUnselectedAutoExcludes autoExcluded selectedEx)
       = set autoExcluded - set selectedEx
   \<and> (A \<noteq> B \<and> B \<notin> set defaultEx \<and> B \<notin> set extraEx \<longrightarrow>
        processUnselectedAutoExcludes [A, B] [A] = [B]
        \<and> B \<notin> set (dedupedExcludes defaultEx extraEx [A]))"
  by (auto simp: dedupedExcludes_def finalExcludes_def Array_from_Set_spec set_spec_dedup
        distinct_spec_dedup processUnselectedAutoExcludes_def)

theorem reconcile_dedup_and_overridden_witness:
  "processUnselectedAutoExcludes [''a.txt'', ''b.txt''] [''a.txt''] = [''b.txt'']
   \<and> ''b.txt'' \<notin> set (dedupedExcludes [''docs/**'', ''yarn.lock''] [''tmp/**''] [''a.txt''])
   \<and> dedupedExcludes [''docs/**'', ''yarn.lock''] [''docs/**''] [''a.txt'', ''yarn.lock'']
       = [''docs/**'', ''yarn.lock'', ''a.txt'']"
proof -
  have h: "''a.txt'' \<noteq> ''b.txt'' \<and> ''b.txt'' \<notin> set [''docs/**'', ''yarn.lock'']
           \<and> ''b.txt'' \<notin> set [''tmp/**'']"
    by simp
  from reconcile_dedup_and_overridden
         [of "[''docs/**'', ''yarn.lock'']" "[''tmp/**'']" "[''a.txt'']"
             "[''a.txt'', ''b.txt'']" "''a.txt''" "''b.txt''"] h
  have a: "processUnselectedAutoExcludes [''a.txt'', ''b.txt''] [''a.txt''] = [''b.txt'']
   \<and> ''b.txt'' \<notin> set (dedupedExcludes [''docs/**'', ''yarn.lock''] [''tmp/**''] [''a.txt''])"
    by blast
  from reconcile_dedup_and_overridden
         [of "[''docs/**'', ''yarn.lock'']" "[''docs/**'']" "[''a.txt'', ''yarn.lock'']"]
  have "dedupedExcludes [''docs/**'', ''yarn.lock''] [''docs/**''] [''a.txt'', ''yarn.lock'']
       = spec_dedup ([''docs/**'', ''yarn.lock''] @ [''docs/**''] @ [''a.txt'', ''yarn.lock''])"
    by blast
  then have b: "dedupedExcludes [''docs/**'', ''yarn.lock''] [''docs/**''] [''a.txt'', ''yarn.lock'']
       = [''docs/**'', ''yarn.lock'', ''a.txt'']" by simp
  from a b show ?thesis by blast
qed

section \<open>Properties of the size estimator\<close>

lemma isExcluded_Some:
  "isExcluded js itemPath patterns isDir = Some b \<Longrightarrow>
   b = list_ex (\<lambda>pattern. isPathExcluded js itemPath pattern isDir = Some True) patterns"
  by (induction patterns) (auto split: option.splits if_splits)

lemma isExcluded_throws:
  "isExcluded js itemPath patterns isDir = None \<Longrightarrow> list_ex (throwsOn js) patterns"
proof (induction patterns)
  case Nil
  then show ?case by simp
next
  case (Cons p ps)
  show ?case
  proof (cases "isPathExcluded js itemPath p isDir")
    case None
    then have "throwsOn js p" by (simp only: isPathExcluded_throws)
    then show ?thesis by simp
  next
    case (Some b)
    with Cons show ?thesis by (cases b) simp_all
  qed
qed

lemma isExcluded_defined:
  "list_all withinFragment patterns \<Longrightarrow> isExcluded js itemPath patterns isDir \<noteq> None"
proof (induction patterns)
  case Nil
  show ?case by simp
next
  case (Cons p ps)
  then have "isPathExcluded js itemPath p isDir \<noteq> None"
    by (simp add: isPathExcluded_defined)
  with Cons show ?case by (auto split: option.splits)
qed

lemma forEach_totalSize_Some:
  "forEach_totalSize js items patterns acc = Some tot \<Longrightarrow>
   tot = acc + sum_list (map size' (filter (counted js patterns) items))"
proof (induction items arbitrary: acc)
  case Nil
  then show ?case by simp
next
  case (Cons it items)
  show ?case
  proof (cases "isDirectory it")
    case True
    with Cons show ?thesis by (simp add: counted_def)
  next
    case False
    with Cons.prems obtain b where b: "isExcluded js (path it) patterns False = Some b"
      by (auto split: option.splits)
    then have "b = list_ex (\<lambda>pattern. isPathExcluded js (path it) pattern False = Some True) patterns"
      by (rule isExcluded_Some)
    then have cnt: "counted js patterns it = (\<not> b)" using False by (simp add: counted_def)
    show ?thesis
    proof (cases b)
      case True
      with b False Cons.prems have "forEach_totalSize js items patterns acc = Some tot" by simp
      from Cons.IH [OF this] cnt True show ?thesis by simp
    next
      case nb: False
      with b False Cons.prems have "forEach_totalSize js items patterns (acc + size' it) = Some tot"
        by simp
      from Cons.IH [OF this] cnt nb show ?thesis by simp
    qed
  qed
qed

lemma forEach_totalSize_throws:
  "forEach_totalSize js items patterns acc = None \<Longrightarrow> list_ex (throwsOn js) patterns"
proof (induction items arbitrary: acc)
  case Nil
  then show ?case by simp
next
  case (Cons it items)
  show ?case
  proof (cases "isDirectory it")
    case True
    with Cons show ?thesis by simp
  next
    case False
    show ?thesis
    proof (cases "isExcluded js (path it) patterns False")
      case None
      then show ?thesis by (rule isExcluded_throws)
    next
      case (Some b)
      with False Cons show ?thesis by (cases b) simp_all
    qed
  qed
qed

lemma estimateFinalSize_Some:
  "estimateFinalSize js items patterns = Some tot \<Longrightarrow>
   tot = sum_list (map size' (filter (counted js patterns) items)) + markdownOverhead items"
  using forEach_totalSize_Some [of js items patterns 0]
  by (auto simp: estimateFinalSize_def split: option.splits)

lemma estimateFinalSize_throws:
  "estimateFinalSize js items patterns = None \<Longrightarrow> list_ex (throwsOn js) patterns"
  using forEach_totalSize_throws [of js items patterns 0]
  by (auto simp: estimateFinalSize_def split: option.splits)

lemma unterminated_source_throws:
  "parseSource source = None \<Longrightarrow> unterminatedGroup source False \<Longrightarrow> RegExp js source = None"
  by (simp add: RegExp_def)

text \<open>
  Claim C4, as stated, fails on the code. The claim speaks of every pattern list. The
  pattern \<open>(*\<close> holds an asterisk and does not end in \<open>/**\<close>, so the matcher
  compiles it; its source is \<open>^([^/]*$\<close>, a group that is never closed, and the
  constructor throws a \<open>SyntaxError\<close>. With a file among the entries the estimator
  does not return a number; this is so even for an engine that accepts every source
  left to it.
\<close>

theorem estimate_throws_counterexample:
  "regexSource ''(*'' = ''^([^/]*$''
   \<and> estimateFinalSize lenientEngine
        [\<lparr>path = ''a.txt'', isDirectory = False, size' = 10\<rparr>] [''(*''] = None"
  by code_simp

text \<open>
  Claim C4, amended. For every entry list and pattern list, either the estimator returns
  the sum of the sizes of the entries that are files and whose path no exclude pattern
  matches, plus an overhead of 100 bytes per entry (directories included in the count)
  capped at \<open>50 * 1024\<close>; or it throws, and then the list holds a wildcard pattern on
  which the constructor of regular expressions throws, as it does on \<open>(*\<close> whatever
  the engine. With no pattern the estimate is the sum of all file sizes plus the
  overhead, and for 10000 entries the overhead of a returned estimate is
  \<open>50 * 1024\<close>.
\<close>

theorem estimateFinalSize_sum_and_overhead:
  "(estimateFinalSize js items excludePatterns =
        Some (sum_list (map size' (filter (\<lambda>e. \<not> isDirectory e \<and>
                 \<not> list_ex (\<lambda>p. isPathExcluded js (path e) p False = Some True) excludePatterns) items))
              + min (int (length items) * 100) (50 * 1024))
      \<or> estimateFinalSize js items excludePatterns = None
        \<and> list_ex (throwsOn js) excludePatterns)
   \<and> estimateFinalSize js items [] =
        Some (sum_list (map size' (filter (\<lambda>e. \<not> isDirectory e) items))
              + min (int (length items) * 100) (50 * 1024))
   \<and> (length items = 10000 \<and> estimateFinalSize js items excludePatterns = Some n \<longrightarrow>
        n = sum_list (map size' (filter (\<lambda>e. \<not> isDirectory e \<and>
                 \<not> list_ex (\<lambda>p. isPathExcluded js (path e) p False = Some True) excludePatterns) items))
            + 50 * 1024)
   \<and> estimateFinalSize js [\<lparr>path = ''a.txt'', isDirectory = False, size' = 10\<rparr>] [''(*''] = None"
proof -
  have a: "estimateFinalSize js items ps =
        Some (sum_list (map size' (filter (\<lambda>e. \<not> isDirectory e \<and>
                 \<not> list_ex (\<lambda>p. isPathExcluded js (path e) p False = Some True) ps) items))
              + min (int (length items) * 100) (50 * 1024))
      \<or> estimateFinalSize js items ps = None \<and> list_ex (throwsOn js) ps" for ps
  proof (cases "estimateFinalSize js items ps")
    case None
    with estimateFinalSize_throws [OF None] show ?thesis by simp
  next
    case (Some t)
    from estimateFinalSize_Some [OF Some] Some show ?thesis
      by (simp add: counted_def [abs_def] markdownOverhead_def)
  qed
  have c: "estimateFinalSize js items [] =
        Some (sum_list (map size' (filter (\<lambda>e. \<not> isDirectory e) items))
              + min (int (length items) * 100) (50 * 1024))"
    using a [of "[]"] by simp
  have d: "length items = 10000 \<and> estimateFinalSize js items excludePatterns = Some n \<longrightarrow>
        n = sum_list (map size' (filter (\<lambda>e. \<not> isDirectory e \<and>
                 \<not> list_ex (\<lambda>p. isPathExcluded js (path e) p False = Some True) excludePatterns) items))
            + 50 * 1024"
    using a [of excludePatterns] by auto
  have src: "parseSource (regexSource ''(*'') = None" "unterminatedGroup (regexSource ''(*'') False"
    by code_simp+
  have pre: "\<not> endsWith ''(*'' ''/**''" by code_simp
  have "RegExp js (regexSource ''(*'') = None"
    using src by (rule unterminated_source_throws)
  then have "isPathExcluded js ''a.txt'' ''(*'' False = None"
    using pre by (simp add: isPathExcluded_def includes'_def)
  then have e: "estimateFinalSize js [\<lparr>path = ''a.txt'', isDirectory = False, size' = 10\<rparr>] [''(*''] = None"
    by (simp add: estimateFinalSize_def)
  from a [of excludePatterns] c d e show ?thesis by blast
qed

theorem estimateFinalSize_sum_and_overhead_witness:
  "estimateFinalSize exampleEngine
     [\<lparr>path = ''src/a.js'', isDirectory = False, size' = 1000\<rparr>,
      \<lparr>path = ''src'', isDirectory = True, size' = 1300\<rparr>,
      \<lparr>path = ''app.min.js'', isDirectory = False, size' = 300\<rparr>]
     [''*.min.js''] = Some 1300
   \<and> estimateFinalSize exampleEngine
     [\<lparr>path = ''file.js'', isDirectory = False, size' = 10\<rparr>] [''*.js?''] = Some 100
   \<and> estimateFinalSize exampleEngine
     (replicate 10000 \<lparr>path = ''f'', isDirectory = False, size' = 1\<rparr>) [] = Some 61200"
proof -
  let ?items = "[\<lparr>path = ''src/a.js'', isDirectory = False, size' = 1000\<rparr>,
      \<lparr>path = ''src'', isDirectory = True, size' = 1300\<rparr>,
      \<lparr>path = ''app.min.js'', isDirectory = False, size' = 300\<rparr>]"
  let ?one = "[\<lparr>path = ''file.js'', isDirectory = False, size' = 10\<rparr>]"
  have h: "\<not> list_ex (throwsOn exampleEngine) [''*.min.js'']" by code_simp
  have v: "sum_list (map size' (filter (\<lambda>e. \<not> isDirectory e \<and>
                 \<not> list_ex (\<lambda>p. isPathExcluded exampleEngine (path e) p False = Some True) [''*.min.js''])
                 ?items))
              + min (int (length ?items) * 100) (50 * 1024) = 1300"
    by code_simp
  from estimateFinalSize_sum_and_overhead [of exampleEngine ?items "[''*.min.js'']"] h
  have "estimateFinalSize exampleEngine ?items [''*.min.js''] =
        Some (sum_list (map size' (filter (\<lambda>e. \<not> isDirectory e \<and>
                 \<not> list_ex (\<lambda>p. isPathExcluded exampleEngine (path e) p False = Some True) [''*.min.js''])
                 ?items))
              + min (int (length ?items) * 100) (50 * 1024))"
    by blast
  with v have p1: "estimateFinalSize exampleEngine ?items [''*.min.js''] = Some 1300" by simp
  have h': "\<not> list_ex (throwsOn exampleEngine) [''*.js?'']" by code_simp
  have v': "sum_list (map size' (filter (\<lambda>e. \<not> isDirectory e \<and>
                 \<not> list_ex (\<lambda>p. isPathExcluded exampleEngine (path e) p False = Some True) [''*.js?''])
                 ?one))
              + min (int (length ?one) * 100) (50 * 1024) = 100"
    by code_simp
  from estimateFinalSize_sum_and_overhead [of exampleEngine ?one "[''*.js?'']"] h'
  have "estimateFinalSize exampleEngine ?one [''*.js?''] =
        Some (sum_list (map size' (filter (\<lambda>e. \<not> isDirectory e \<and>
                 \<not> list_ex (\<lambda>p. isPathExcluded exampleEngine (path e) p False = Some True) [''*.js?''])
                 ?one))
              + min (int (length ?one) * 100) (50 * 1024))"
    by blast
  with v' have p2: "estimateFinalSize exampleEngine ?one [''*.js?''] = Some 100" by simp
  let ?big = "replicate 10000 \<lparr>path = ''f'', isDirectory = False, size' = 1\<rparr>"
  have len: "length ?big = 10000" by simp
  have sm: "sum_list (map size' (filter (\<lambda>e. \<not> isDirectory e \<and>
       \<not> list_ex (\<lambda>p. isPathExcluded exampleEngine (path e) p False = Some True) []) ?big))
       = 10000"
    by (simp add: sum_list_replicate)
  from estimateFinalSize_sum_and_overhead
         [where js = exampleEngine and items = ?big and excludePatterns = "[]"]
  obtain m where m: "estimateFinalSize exampleEngine ?big [] = Some m" by blast
  from estimateFinalSize_sum_and_overhead
         [where js = exampleEngine and items = ?big and excludePatterns = "[]" and n = m] len m
  have "m = sum_list (map size' (filter (\<lambda>e. \<not> isDirectory e \<and>
       \<not> list_ex (\<lambda>p. isPathExcluded exampleEngine (path e) p False = Some True) []) ?big))
       + 50 * 1024"
    by blast
  with sm have "m = 61200" by simp
  with m have p3: "estimateFinalSize exampleEngine ?big [] = Some 61200" by simp
  from p1 p2 p3 show ?thesis by blast
qed

section \<open>Properties of the auto-exclusion planner\<close>

lemma autoExclude_loop_prefix:
  "\<exists>k\<le>length files.
     autoExclude_loop files targetSize (acc, remaining) =
       (acc @ map value' (take k files), remaining - sum_list (map csize (take k files)))
     \<and> (\<forall>j<k. real_of_int (remaining - sum_list (map csize (take j files))) > targetSize)
     \<and> (k < length files \<longrightarrow>
          real_of_int (remaining - sum_list (map csize (take k files))) \<le> targetSize)"
proof (induction files arbitrary: acc remaining)
  case Nil
  show ?case by simp
next
  case (Cons f fs)
  show ?case
  proof (cases "real_of_int remaining > targetSize")
    case False
    then have "autoExclude_loop (f # fs) targetSize (acc, remaining) =
       (acc @ map value' (take 0 (f # fs)), remaining - sum_list (map csize (take 0 (f # fs))))
     \<and> (\<forall>j<0. real_of_int (remaining - sum_list (map csize (take j (f # fs)))) > targetSize)
     \<and> (0 < length (f # fs) \<longrightarrow>
          real_of_int (remaining - sum_list (map csize (take 0 (f # fs)))) \<le> targetSize)"
      by simp
    then show ?thesis by blast
  next
    case True
    from Cons [of "acc @ [value' f]" "remaining - csize f"]
    obtain k where k: "k \<le> length fs"
      "autoExclude_loop fs targetSize (acc @ [value' f], remaining - csize f) =
         ((acc @ [value' f]) @ map value' (take k fs),
          remaining - csize f - sum_list (map csize (take k fs)))"
      "\<forall>j<k. real_of_int (remaining - csize f - sum_list (map csize (take j fs))) > targetSize"
      "k < length fs \<longrightarrow>
          real_of_int (remaining - csize f - sum_list (map csize (take k fs))) \<le> targetSize"
      by blast
    have a: "Suc k \<le> length (f # fs)" using k(1) by simp
    have b: "autoExclude_loop (f # fs) targetSize (acc, remaining) =
       (acc @ map value' (take (Suc k) (f # fs)),
        remaining - sum_list (map csize (take (Suc k) (f # fs))))"
      using True k(2) by simp
    have c: "\<forall>j<Suc k. real_of_int (remaining - sum_list (map csize (take j (f # fs)))) > targetSize"
    proof (intro allI impI)
      fix j assume "j < Suc k"
      show "real_of_int (remaining - sum_list (map csize (take j (f # fs)))) > targetSize"
      proof (cases j)
        case 0
        with True show ?thesis by simp
      next
        case (Suc i)
        with \<open>j < Suc k\<close> have "i < k" by simp
        with k(3) have "real_of_int (remaining - csize f - sum_list (map csize (take i fs))) > targetSize"
          by blast
        with Suc show ?thesis by (simp add: algebra_simps)
      qed
    qed
    have d: "Suc k < length (f # fs) \<longrightarrow>
          real_of_int (remaining - sum_list (map csize (take (Suc k) (f # fs)))) \<le> targetSize"
      using k(4) by (simp add: algebra_simps)
    from a b c d show ?thesis by blast
  qed
qed

lemma mapThrowing_set:
  "mapThrowing f xs = Some ys \<Longrightarrow> y \<in> set ys \<Longrightarrow> \<exists>x\<in>set xs. f x = Some y"
  by (induction xs arbitrary: ys) (auto split: option.splits)

lemma filesToConsider_props:
  "mset (filesToConsider choices) = mset (filter (\<lambda>c. \<not> checked c) choices)
   \<and> sorted (map (\<lambda>c. - csize c) (filesToConsider choices))
   \<and> filter (\<lambda>c. csize c = n) (filesToConsider choices)
       = filter (\<lambda>c. csize c = n) (filter (\<lambda>c. \<not> checked c) choices)"
proof -
  have "filter (\<lambda>c. - csize c = - n) (sort_key (\<lambda>c. - csize c) (filter (\<lambda>c. \<not> checked c) choices))
      = filter (\<lambda>c. - csize c = - n) (filter (\<lambda>c. \<not> checked c) choices)"
    by (rule sort_key_stable)
  then show ?thesis by (simp add: filesToConsider_def)
qed

lemma chosen_are_unexcluded_files:
  assumes "createSelectionChoices js items allExcludes = Some (fileChoices, directoryChoices)"
    and "c \<in> set (filesToConsider fileChoices)"
  shows "\<exists>it\<in>set items. \<not> isDirectory it \<and> path it = value' c \<and> size' it = csize c
           \<and> isExcluded js (path it) allExcludes False = Some False"
proof -
  from assms(1) have m: "mapThrowing (fileChoice js allExcludes)
     (sort_key (\<lambda>a. - size' a) (filter (\<lambda>it. \<not> isDirectory it) items)) = Some fileChoices"
    by (auto simp: createSelectionChoices_def split: option.splits)
  from assms(2) have "c \<in> set fileChoices" "\<not> checked c"
    by (auto simp: filesToConsider_def)
  with mapThrowing_set [OF m] obtain it where
    "it \<in> set (sort_key (\<lambda>a. - size' a) (filter (\<lambda>it. \<not> isDirectory it) items))"
    "fileChoice js allExcludes it = Some c" by blast
  with \<open>\<not> checked c\<close> show ?thesis by (auto simp: fileChoice_def)
qed

text \<open>
  Claim C3. The planner returns the empty list unless it is enabled and the current size
  exceeds the budget. Otherwise its candidates are the choices not yet checked (the
  files the baseline patterns do not exclude), in descending order of size with ties in
  their former order; it returns the values of the first \<open>k\<close> candidates, in that
  order, where every shorter prefix leaves a remaining size above 0.95 times the budget
  and the prefix of length \<open>k\<close> brings it to the target or below, unless the
  candidates are exhausted. Applied to the file choices of the selection list, every
  path it returns is the path of a file entry that the baseline does not exclude, so
  no directory is chosen.
\<close>

theorem autoExcludeFiles_greedy_prefix:
  "(\<not> (autoExclude \<and> initialSize > sizeLimit) \<longrightarrow>
      fst (autoExcludeFiles choices initialSize sizeLimit autoExclude) = [])
   \<and> (autoExclude \<and> initialSize > sizeLimit \<longrightarrow>
      (\<exists>k\<le>length (filesToConsider choices).
         autoExcludeFiles choices initialSize sizeLimit autoExclude =
           (map value' (take k (filesToConsider choices)),
            initialSize - sum_list (map csize (take k (filesToConsider choices))))
         \<and> (\<forall>j<k. real_of_int (initialSize - sum_list (map csize (take j (filesToConsider choices))))
                    > 0.95 * real_of_int sizeLimit)
         \<and> (k < length (filesToConsider choices) \<longrightarrow>
              real_of_int (initialSize - sum_list (map csize (take k (filesToConsider choices))))
                \<le> 0.95 * real_of_int sizeLimit)))
   \<and> mset (filesToConsider choices) = mset (filter (\<lambda>c. \<not> checked c) choices)
   \<and> sorted (map (\<lambda>c. - csize c) (filesToConsider choices))
   \<and> filter (\<lambda>c. csize c = n) (filesToConsider choices)
       = filter (\<lambda>c. csize c = n) (filter (\<lambda>c. \<not> checked c) choices)
   \<and> (createSelectionChoices js items allExcludes = Some (choices, directoryChoices) \<longrightarrow>
        (\<forall>p\<in>set (fst (autoExcludeFiles choices initialSize sizeLimit autoExclude)).
           \<exists>it\<in>set items. \<not> isDirectory it \<and> path it = p
              \<and> isExcluded js p allExcludes False = Some False))"
proof -
  have a: "\<not> (autoExclude \<and> initialSize > sizeLimit) \<longrightarrow>
      fst (autoExcludeFiles choices initialSize sizeLimit autoExclude) = []"
    by (simp add: autoExcludeFiles_def)
  have b: "autoExclude \<and> initialSize > sizeLimit \<longrightarrow>
      (\<exists>k\<le>length (filesToConsider choices).
         autoExcludeFiles choices initialSize sizeLimit autoExclude =
           (map value' (take k (filesToConsider choices)),
            initialSize - sum_list (map csize (take k (filesToConsider choices))))
         \<and> (\<forall>j<k. real_of_int (initialSize - sum_list (map csize (take j (filesToConsider choices))))
                    > 0.95 * real_of_int sizeLimit)
         \<and> (k < length (filesToConsider choices) \<longrightarrow>
              real_of_int (initialSize - sum_list (map csize (take k (filesToConsider choices))))
                \<le> 0.95 * real_of_int sizeLimit))"
    using autoExclude_loop_prefix [of "filesToConsider choices" "real_of_int sizeLimit * 0.95" "[]" initialSize]
    by (simp add: autoExcludeFiles_def mult.commute)
  have sub: "set (fst (autoExcludeFiles choices initialSize sizeLimit autoExclude))
               \<subseteq> value' ` set (filesToConsider choices)"
  proof (cases "autoExclude \<and> initialSize > sizeLimit")
    case False
    with a show ?thesis by simp
  next
    case True
    with b obtain k where "autoExcludeFiles choices initialSize sizeLimit autoExclude =
           (map value' (take k (filesToConsider choices)),
            initialSize - sum_list (map csize (take k (filesToConsider choices))))" by blast
    then show ?thesis by (auto dest: in_set_takeD)
  qed
  have c: "createSelectionChoices js items allExcludes = Some (choices, directoryChoices) \<longrightarrow>
        (\<forall>p\<in>set (fst (autoExcludeFiles choices initialSize sizeLimit autoExclude)).
           \<exists>it\<in>set items. \<not> isDirectory it \<and> path it = p
              \<and> isExcluded js p allExcludes False = Some False)"
  proof (intro impI ballI)
    fix p
    assume cs: "createSelectionChoices js items allExcludes = Some (choices, directoryChoices)"
      and "p \<in> set (fst (autoExcludeFiles choices initialSize sizeLimit autoExclude))"
    with sub obtain c where "c \<in> set (filesToConsider choices)" "p = value' c" by blast
    with chosen_are_unexcluded_files [OF cs, of c]
    show "\<exists>it\<in>set items. \<not> isDirectory it \<and> path it = p
              \<and> isExcluded js p allExcludes False = Some False" by auto
  qed
  from a b c filesToConsider_props [of choices n] show ?thesis by blast
qed

theorem autoExcludeFiles_greedy_prefix_witness:
  "fst (autoExcludeFiles
      [\<lparr>value' = ''c'', csize = 204800, checked = False\<rparr>,
       \<lparr>value' = ''a'', csize = 512000, checked = False\<rparr>,
       \<lparr>value' = ''d'', csize = 102400, checked = False\<rparr>,
       \<lparr>value' = ''b'', csize = 307200, checked = False\<rparr>] 1126800 409600 False) = []
   \<and> autoExcludeFiles
      [\<lparr>value' = ''c'', csize = 204800, checked = False\<rparr>,
       \<lparr>value' = ''a'', csize = 512000, checked = False\<rparr>,
       \<lparr>value' = ''d'', csize = 102400, checked = False\<rparr>,
       \<lparr>value' = ''b'', csize = 307200, checked = False\<rparr>] 1126800 409600 True
       = ([''a'', ''b''], 307600)
   \<and> ''node_modules'' \<notin> set (fst (autoExcludeFiles
      [\<lparr>value' = ''a.txt'', csize = 307200, checked = False\<rparr>,
       \<lparr>value' = ''b.txt'', csize = 204800, checked = False\<rparr>] 512300 409600 True))"
proof -
  let ?cs = "[\<lparr>value' = ''c'', csize = 204800, checked = False\<rparr>,
       \<lparr>value' = ''a'', csize = 512000, checked = False\<rparr>,
       \<lparr>value' = ''d'', csize = 102400, checked = False\<rparr>,
       \<lparr>value' = ''b'', csize = 307200, checked = False\<rparr>]"
  let ?sorted = "[\<lparr>value' = ''a'', csize = 512000, checked = False\<rparr>,
       \<lparr>value' = ''b'', csize = 307200, checked = False\<rparr>,
       \<lparr>value' = ''c'', csize = 204800, checked = False\<rparr>,
       \<lparr>value' = ''d'', csize = 102400, checked = False\<rparr>]"
  have fc: "filesToConsider ?cs = ?sorted" by (simp add: filesToConsider_def)
  have off: "\<not> (False \<and> (1126800::int) > 409600)" by simp
  from autoExcludeFiles_greedy_prefix [where autoExclude = False and initialSize = 1126800 and sizeLimit = 409600
      and choices = ?cs] off
  have p1: "fst (autoExcludeFiles ?cs 1126800 409600 False) = []" by blast
  have on: "True \<and> (1126800::int) > 409600" by simp
  from autoExcludeFiles_greedy_prefix [where autoExclude = True and initialSize = 1126800 and sizeLimit = 409600
      and choices = ?cs] on
  obtain k where k: "k \<le> length (filesToConsider ?cs)"
    "autoExcludeFiles ?cs 1126800 409600 True =
       (map value' (take k (filesToConsider ?cs)),
        1126800 - sum_list (map csize (take k (filesToConsider ?cs))))"
    "\<forall>j<k. real_of_int (1126800 - sum_list (map csize (take j (filesToConsider ?cs))))
              > 0.95 * real_of_int 409600"
    "k < length (filesToConsider ?cs) \<longrightarrow>
       real_of_int (1126800 - sum_list (map csize (take k (filesToConsider ?cs))))
         \<le> 0.95 * real_of_int 409600"
    by blast
  have "\<not> 2 < k"
  proof
    assume "2 < k"
    with k(3) have "real_of_int (1126800 - sum_list (map csize (take 2 (filesToConsider ?cs))))
              > 0.95 * real_of_int 409600" by blast
    then show False unfolding fc by simp
  qed
  moreover have "k \<noteq> 0"
  proof
    assume "k = 0"
    with k(4) show False unfolding fc by simp
  qed
  moreover have "k \<noteq> 1"
  proof
    assume "k = 1"
    with k(4) show False unfolding fc by simp
  qed
  ultimately have "k = 2" by arith
  with k(2) have p2: "autoExcludeFiles ?cs 1126800 409600 True = ([''a'', ''b''], 307600)"
    unfolding fc by (simp add: numeral_2_eq_2)
  let ?items = "[\<lparr>path = ''a.txt'', isDirectory = False, size' = 307200\<rparr>,
       \<lparr>path = ''b.txt'', isDirectory = False, size' = 204800\<rparr>,
       \<lparr>path = ''node_modules'', isDirectory = True, size' = 0\<rparr>]"
  let ?fcs = "[\<lparr>value' = ''a.txt'', csize = 307200, checked = False\<rparr>,
       \<lparr>value' = ''b.txt'', csize = 204800, checked = False\<rparr>]"
  have cs: "createSelectionChoices exampleEngine ?items [''node_modules/**''] =
              Some (?fcs, [(''node_modules/**'', True)])"
    by code_simp
  from autoExcludeFiles_greedy_prefix [where autoExclude = True and initialSize = 512300 and sizeLimit = 409600
      and choices = ?fcs and items = ?items and allExcludes = "[''node_modules/**'']"
      and directoryChoices = "[(''node_modules/**'', True)]"] cs
  have "\<forall>p\<in>set (fst (autoExcludeFiles ?fcs 512300 409600 True)).
           \<exists>it\<in>set ?items. \<not> isDirectory it \<and> path it = p
              \<and> isExcluded exampleEngine p [''node_modules/**''] False = Some False"
    by blast
  then have p3: "''node_modules'' \<notin> set (fst (autoExcludeFiles ?fcs 512300 409600 True))"
    by fastforce
  from p1 p2 p3 show ?thesis by blast
qed

section \<open>Properties of the scanner\<close>






lemma prefix_snoc_same:
  assumes "c \<notin> set e" "prefix (r @ [c]) (e @ [c])"
  shows "r = e"
proof -
  from assms(2) obtain zs where zs: "e @ [c] = (r @ [c]) @ zs" unfolding prefix_def by blast
  show ?thesis
  proof (cases zs rule: rev_cases)
    case Nil
    with zs show ?thesis by simp
  next
    case (snoc ys y)
    with zs have "e = r @ [c] @ ys" by simp
    with assms(1) show ?thesis by simp
  qed
qed

lemma prefix_snoc_absent:
  assumes "c \<notin> set e"
  shows "\<not> prefix (r @ [c]) e"
proof
  assume "prefix (r @ [c]) e"
  then have "set (r @ [c]) \<subseteq> set e" by (rule set_mono_prefix)
  with assms show False by simp
qed

lemma prefix_snoc_before:
  assumes "c \<notin> set e" "prefix (r @ [c]) (B @ e)"
  shows "prefix (r @ [c]) B"
proof -
  from assms(2) have "prefix (r @ [c]) B \<or> (\<exists>us. r @ [c] = B @ us \<and> prefix us e)"
    by (simp only: prefix_append)
  then show ?thesis
  proof
    assume "\<exists>us. r @ [c] = B @ us \<and> prefix us e"
    then obtain us where us: "r @ [c] = B @ us" "prefix us e" by blast
    show ?thesis
    proof (cases us rule: rev_cases)
      case Nil
      with us(1) show ?thesis by simp
    next
      case (snoc ys y)
      with us(1) have "y = c" by simp
      with snoc us(2) have "prefix (ys @ [c]) e" by simp
      with assms(1) show ?thesis by (simp add: prefix_snoc_absent)
    qed
  qed
qed

lemma prefix_snoc_component:
  assumes "c \<notin> set e" "prefix (r @ [c]) (B @ e @ [c])"
  shows "prefix (r @ [c]) B \<or> r = B @ e"
proof -
  from assms(2) have "prefix (r @ [c]) B \<or> (\<exists>us. r @ [c] = B @ us \<and> prefix us (e @ [c]))"
    by (simp only: prefix_append)
  then show ?thesis
  proof
    assume "prefix (r @ [c]) B"
    then show ?thesis by simp
  next
    assume "\<exists>us. r @ [c] = B @ us \<and> prefix us (e @ [c])"
    then obtain us where us: "r @ [c] = B @ us" "prefix us (e @ [c])" by blast
    show ?thesis
    proof (cases us rule: rev_cases)
      case Nil
      with us(1) show ?thesis by simp
    next
      case (snoc ys y)
      with us(1) have y: "y = c" and r: "r = B @ ys" by simp_all
      with snoc us(2) have "prefix (ys @ [c]) (e @ [c])" by simp
      with assms(1) have "ys = e" by (rule prefix_snoc_same)
      with r show ?thesis by simp
    qed
  qed
qed

lemma shouldSkip_in_skipDirs:
  "shouldSkip skipDirs entry baseDir (path_join baseDir entry) \<Longrightarrow>
   path_join baseDir entry \<in> set skipDirs"
  by (auto simp: shouldSkip_def list_ex_iff path_join_def split: if_splits)

lemma in_skipDirs_shouldSkip:
  "path_join baseDir entry \<in> set skipDirs \<Longrightarrow>
   shouldSkip skipDirs entry baseDir (path_join baseDir entry)"
  unfolding shouldSkip_def list_ex_iff includes'_def
  by (rule bexI [of _ "path_join baseDir entry"]) (auto simp: path_join_def)

text \<open>The path of an entry of a directory, against a skip path followed by a separator.\<close>

lemma entry_path_prefix:
  assumes "CHR ''/'' \<notin> set entry" "prefix (r @ ''/'') (path_join baseDir entry)"
  shows "baseDir \<noteq> [] \<and> prefix (r @ ''/'') (baseDir @ ''/'')"
proof (cases "baseDir = []")
  case True
  with assms show ?thesis by (simp add: path_join_def prefix_snoc_absent)
next
  case False
  with assms(2) have "prefix (r @ ''/'') ((baseDir @ ''/'') @ entry)" by (simp add: path_join_def)
  with assms(1) have "prefix (r @ ''/'') (baseDir @ ''/'')" by (rule prefix_snoc_before)
  with False show ?thesis by simp
qed

lemma below_entry_path_prefix:
  assumes "CHR ''/'' \<notin> set entry" "prefix (r @ ''/'') (path_join baseDir entry @ ''/'')"
    and "r \<noteq> path_join baseDir entry"
  shows "baseDir \<noteq> [] \<and> prefix (r @ ''/'') (baseDir @ ''/'')"
proof (cases "baseDir = []")
  case True
  with assms(2) have "prefix (r @ ''/'') (entry @ ''/'')" by (simp add: path_join_def)
  with assms(1) have "r = entry" by (rule prefix_snoc_same)
  with True assms(3) show ?thesis by (simp add: path_join_def)
next
  case False
  with assms(2) have "prefix (r @ ''/'') ((baseDir @ ''/'') @ entry @ ''/'')"
    by (simp add: path_join_def)
  with assms(1) have "prefix (r @ ''/'') (baseDir @ ''/'') \<or> r = (baseDir @ ''/'') @ entry"
    by (rule prefix_snoc_component)
  with False assms(3) show ?thesis by (auto simp: path_join_def)
qed

lemma scan_below_skip:
  "validNames dir \<Longrightarrow> it \<in> set (fst (scan dir baseDir skipDirs)) \<Longrightarrow> r \<in> set skipDirs \<Longrightarrow>
     prefix (r @ ''/'') (path it) \<Longrightarrow> baseDir \<noteq> [] \<and> prefix (r @ ''/'') (baseDir @ ''/'')"
  and scan_entries_below_skip:
  "validNames_entries entries \<Longrightarrow> it \<in> set (fst (scan_entries entries baseDir' skipDirs)) \<Longrightarrow>
     r \<in> set skipDirs \<Longrightarrow>
     prefix (r @ ''/'') (path it) \<Longrightarrow> baseDir' \<noteq> [] \<and> prefix (r @ ''/'') (baseDir' @ ''/'')"
proof (induction dir baseDir skipDirs and entries baseDir' skipDirs rule: scan_scan_entries.induct)
  case (6 entry node entries baseDir skipDirs)
  let ?rel = "path_join baseDir entry"
  from "6.prems"(1) have ne: "CHR ''/'' \<notin> set entry" and vn: "validNames node"
    and ve: "validNames_entries entries" by simp_all
  from "6.prems"(2) consider
      (self) "path it = ?rel"
    | (below) st where "statSync node = Some st" "stat_isDirectory st"
        "\<not> shouldSkip skipDirs entry baseDir ?rel"
        "it \<in> set (fst (scan node ?rel skipDirs))"
    | (others) "it \<in> set (fst (scan_entries entries baseDir skipDirs))"
    by (auto simp: Let_def split: option.splits if_splits)
  then show ?case
  proof cases
    case self
    with "6.prems"(4) have "prefix (r @ ''/'') ?rel" by simp
    with ne show ?thesis by (rule entry_path_prefix)
  next
    case below
    from "6.IH"(1) [OF refl below(1,2,3) vn below(4) "6.prems"(3,4)]
    have p: "prefix (r @ ''/'') (?rel @ ''/'')" by simp
    from below(3) "6.prems"(3) have "r \<noteq> ?rel"
      using in_skipDirs_shouldSkip [of baseDir entry skipDirs] by auto
    with ne p show ?thesis by (rule below_entry_path_prefix)
  next
    case others
    from "6.IH"(2) [OF refl refl ve others "6.prems"(3,4)] show ?thesis .
  qed
qed simp_all

lemma scanDirectory_below_skip:
  assumes "validNames rootDir" "it \<in> set (fst (scanDirectory rootDir skipDirs))"
    "r \<in> set skipDirs"
  shows "\<not> prefix (r @ ''/'') (path it)"
proof
  assume p: "prefix (r @ ''/'') (path it)"
  from assms(2) have "it \<in> set (fst (scan rootDir [] skipDirs))"
    by (simp add: scanDirectory_def Let_def)
  from scan_below_skip [OF assms(1) this assms(3) p] show False by simp
qed

lemma scan_entries_skipped:
  assumes "shouldSkip skipDirs entry baseDir (path_join baseDir entry)"
    "statSync node = Some st" "stat_isDirectory st"
  shows "scan_entries ((entry, node) # entries) baseDir skipDirs =
     (\<lparr>path = path_join baseDir entry, isDirectory = True, size' = 0\<rparr>
        # fst (scan_entries entries baseDir skipDirs),
      snd (scan_entries entries baseDir skipDirs))"
  using assms by (simp add: Let_def)

lemma scan_skip_items_zero:
  "it \<in> set (fst (scan dir baseDir skipDirs)) \<Longrightarrow> isDirectory it \<Longrightarrow>
     path it \<in> set skipDirs \<Longrightarrow> size' it = 0"
  and scan_entries_skip_items_zero:
  "it \<in> set (fst (scan_entries entries baseDir' skipDirs)) \<Longrightarrow> isDirectory it \<Longrightarrow>
     path it \<in> set skipDirs \<Longrightarrow> size' it = 0"
proof (induction dir baseDir skipDirs and entries baseDir' skipDirs rule: scan_scan_entries.induct)
  case (6 entry node entries baseDir skipDirs)
  let ?rel = "path_join baseDir entry"
  from "6.prems"(1) consider
      (skipped) "it = \<lparr>path = ?rel, isDirectory = True, size' = 0\<rparr>"
    | (kept) "path it = ?rel" "\<not> shouldSkip skipDirs entry baseDir ?rel"
    | (below) st where "statSync node = Some st" "stat_isDirectory st"
        "\<not> shouldSkip skipDirs entry baseDir ?rel"
        "it \<in> set (fst (scan node ?rel skipDirs))"
    | (plain) "\<not> isDirectory it"
    | (others) "it \<in> set (fst (scan_entries entries baseDir skipDirs))"
    by (auto simp: Let_def split: option.splits if_splits)
  then show ?case
  proof cases
    case skipped
    then show ?thesis by simp
  next
    case kept
    with "6.prems"(3) in_skipDirs_shouldSkip [of baseDir entry skipDirs]
    show ?thesis by simp
  next
    case below
    from "6.IH"(1) [OF refl below(1,2,3,4) "6.prems"(2,3)] show ?thesis .
  next
    case plain
    with "6.prems"(2) show ?thesis by simp
  next
    case others
    from "6.IH"(2) [OF refl refl others "6.prems"(2,3)] show ?thesis .
  qed
qed simp_all

text \<open>An entry the loop runs on leaves its item in the result of the scan.\<close>

lemma scan_entries_member_item:
  assumes "(entry, node) \<in> set entries" "statSync node = Some st"
  shows "\<lparr>path = path_join baseDir entry, isDirectory = stat_isDirectory st,
          size' = (if stat_isDirectory st
                   then (if shouldSkip skipDirs entry baseDir (path_join baseDir entry)
                         then 0 else getDirSize node)
                   else stat_size st)\<rparr>
         \<in> set (fst (scan_entries entries baseDir skipDirs))"
  using assms
proof (induction entries)
  case Nil
  then show ?case by simp
next
  case (Cons e es)
  show ?case
  proof (cases "e = (entry, node)")
    case True
    with Cons.prems(2) show ?thesis by (simp add: Let_def)
  next
    case False
    with Cons.prems have "(entry, node) \<in> set es" by simp
    from Cons.IH [OF this Cons.prems(2)] show ?thesis
      by (cases e) (simp add: Let_def)
  qed
qed

lemma scan_entries_member_below:
  assumes "(entry, Dir sub) \<in> set entries"
    "\<not> shouldSkip skipDirs entry baseDir (path_join baseDir entry)"
  shows "set (fst (scan_entries sub (path_join baseDir entry) skipDirs))
           \<subseteq> set (fst (scan_entries entries baseDir skipDirs))"
  using assms
proof (induction entries)
  case Nil
  then show ?case by simp
next
  case (Cons e es)
  show ?case
  proof (cases "e = (entry, Dir sub)")
    case True
    with Cons.prems(2) show ?thesis by (auto simp: Let_def)
  next
    case False
    with Cons.prems have "(entry, Dir sub) \<in> set es" by simp
    from Cons.IH [OF this Cons.prems(2)] show ?thesis
      by (cases e) (auto simp: Let_def)
  qed
qed

lemma encountered_listing:
  "encountered skipDirs rootDir baseDir entry node \<Longrightarrow>
   \<exists>entries. (entry, node) \<in> set entries
      \<and> set (fst (scan_entries entries baseDir skipDirs)) \<subseteq> set (fst (scan rootDir [] skipDirs))"
proof (induction rule: encountered.induct)
  case (top entry node entries)
  then have "(entry, node) \<in> set entries
      \<and> set (fst (scan_entries entries [] skipDirs)) \<subseteq> set (fst (scan (Dir entries) [] skipDirs))"
    by simp
  then show ?case by blast
next
  case (below rootDir baseDir entry sub entry' node')
  then obtain entries where e: "(entry, Dir sub) \<in> set entries"
    "set (fst (scan_entries entries baseDir skipDirs)) \<subseteq> set (fst (scan rootDir [] skipDirs))"
    by blast
  from scan_entries_member_below [OF e(1) below(2)] e(2)
  have "set (fst (scan_entries sub (path_join baseDir entry) skipDirs))
          \<subseteq> set (fst (scan rootDir [] skipDirs))" by blast
  with below(3) show ?case by blast
qed

lemma set_scanDirectory:
  "set (fst (scanDirectory rootDir skipDirs)) = set (fst (scan rootDir [] skipDirs))"
  by (simp add: scanDirectory_def Let_def)

lemma encountered_item:
  assumes "encountered skipDirs rootDir baseDir entry node" "statSync node = Some st"
  shows "\<lparr>path = path_join baseDir entry, isDirectory = stat_isDirectory st,
          size' = (if stat_isDirectory st
                   then (if shouldSkip skipDirs entry baseDir (path_join baseDir entry)
                         then 0 else getDirSize node)
                   else stat_size st)\<rparr>
         \<in> set (fst (scanDirectory rootDir skipDirs))"
proof -
  from encountered_listing [OF assms(1)] obtain entries where e: "(entry, node) \<in> set entries"
    "set (fst (scan_entries entries baseDir skipDirs)) \<subseteq> set (fst (scan rootDir [] skipDirs))"
    by blast
  from scan_entries_member_item [OF e(1) assms(2)] e(2) show ?thesis
    unfolding set_scanDirectory by blast
qed

lemma path_join_empty: "path_join baseDir entry = [] \<Longrightarrow> entry = []"
  by (simp add: path_join_def split: if_splits)

lemma skipped_not_entered:
  assumes "shouldSkip skipDirs entry baseDir (path_join baseDir entry)" "entry \<noteq> []"
  shows "\<not> encountered skipDirs rootDir (path_join baseDir entry) entry' node'"
proof
  assume "encountered skipDirs rootDir (path_join baseDir entry) entry' node'"
  then show False
  proof (cases rule: encountered.cases)
    case (top entries)
    with assms(2) path_join_empty [of baseDir entry] show False by simp
  next
    case (below baseDir0 entry0 sub)
    from assms(1) have "path_join baseDir entry \<in> set skipDirs" by (rule shouldSkip_in_skipDirs)
    with below(1) have "path_join baseDir0 entry0 \<in> set skipDirs" by simp
    then have "shouldSkip skipDirs entry0 baseDir0 (path_join baseDir0 entry0)"
      by (rule in_skipDirs_shouldSkip)
    with below(3) show False by simp
  qed
qed

text \<open>
  Claim C6. When a directory the scanner meets matches the skip set (its name, at the
  top level, for a skip entry without a separator; its relative path for a skip entry
  with one), the sequence the scanner returns holds an item for it with
  \<open>isDirectory\<close> true and size 0. The scanner does not descend into it: the loop
  goes on with the next entry, and no entry of that directory is ever met. In the
  returned sequence no path lies below that directory, and every directory item whose
  path is a skip path has size 0. Entry names are those of a file system: they hold no
  separator.
\<close>

theorem scan_skip_directory:
  "(encountered skipDirs rootDir baseDir entry node
      \<and> shouldSkip skipDirs entry baseDir (path_join baseDir entry)
      \<and> statSync node = Some st \<and> stat_isDirectory st \<longrightarrow>
      \<lparr>path = path_join baseDir entry, isDirectory = True, size' = 0\<rparr>
        \<in> set (fst (scanDirectory rootDir skipDirs)))
   \<and> (shouldSkip skipDirs entry baseDir (path_join baseDir entry) \<and> entry \<noteq> [] \<longrightarrow>
        \<not> encountered skipDirs rootDir (path_join baseDir entry) entry' node')
   \<and> (shouldSkip skipDirs entry baseDir (path_join baseDir entry)
      \<and> statSync node = Some st \<and> stat_isDirectory st \<longrightarrow>
      scan_entries ((entry, node) # entries) baseDir skipDirs =
        (\<lparr>path = path_join baseDir entry, isDirectory = True, size' = 0\<rparr>
           # fst (scan_entries entries baseDir skipDirs),
         snd (scan_entries entries baseDir skipDirs)))
   \<and> (validNames rootDir \<and> shouldSkip skipDirs entry baseDir (path_join baseDir entry) \<longrightarrow>
        (\<forall>it\<in>set (fst (scanDirectory rootDir skipDirs)).
           \<not> prefix (path_join baseDir entry @ ''/'') (path it)))
   \<and> (\<forall>it\<in>set (fst (scanDirectory rootDir skipDirs)).
        isDirectory it \<and> path it \<in> set skipDirs \<longrightarrow> size' it = 0)"
proof -
  have p: "encountered skipDirs rootDir baseDir entry node
      \<and> shouldSkip skipDirs entry baseDir (path_join baseDir entry)
      \<and> statSync node = Some st \<and> stat_isDirectory st \<longrightarrow>
      \<lparr>path = path_join baseDir entry, isDirectory = True, size' = 0\<rparr>
        \<in> set (fst (scanDirectory rootDir skipDirs))"
    using encountered_item [of skipDirs rootDir baseDir entry node st] by auto
  have q: "shouldSkip skipDirs entry baseDir (path_join baseDir entry) \<and> entry \<noteq> [] \<longrightarrow>
        \<not> encountered skipDirs rootDir (path_join baseDir entry) entry' node'"
    using skipped_not_entered [of skipDirs entry baseDir rootDir entry' node'] by blast
  have a: "shouldSkip skipDirs entry baseDir (path_join baseDir entry)
      \<and> statSync node = Some st \<and> stat_isDirectory st \<longrightarrow>
      scan_entries ((entry, node) # entries) baseDir skipDirs =
        (\<lparr>path = path_join baseDir entry, isDirectory = True, size' = 0\<rparr>
           # fst (scan_entries entries baseDir skipDirs),
         snd (scan_entries entries baseDir skipDirs))"
    using scan_entries_skipped [of skipDirs entry baseDir node st entries] by blast
  have b: "validNames rootDir \<and> shouldSkip skipDirs entry baseDir (path_join baseDir entry) \<longrightarrow>
        (\<forall>it\<in>set (fst (scanDirectory rootDir skipDirs)).
           \<not> prefix (path_join baseDir entry @ ''/'') (path it))"
    using scanDirectory_below_skip [of rootDir _ skipDirs "path_join baseDir entry"]
      shouldSkip_in_skipDirs [of skipDirs entry baseDir]
    by blast
  have c: "\<forall>it\<in>set (fst (scanDirectory rootDir skipDirs)).
        isDirectory it \<and> path it \<in> set skipDirs \<longrightarrow> size' it = 0"
    using scan_skip_items_zero [of _ rootDir "[]" skipDirs]
    by (auto simp: scanDirectory_def Let_def)
  from p q a b c show ?thesis by blast
qed

theorem scan_skip_directory_witness:
  "\<lparr>path = ''node_modules'', isDirectory = True, size' = 0\<rparr>
     \<in> set (fst (scanDirectory
           (Dir [(''a.txt'', File 307200), (''b.txt'', File 204800),
                 (''node_modules'', Dir [(''x.js'', File 1048576)])]) COMMON_EXCLUDE_DIRS))
   \<and> \<not> encountered COMMON_EXCLUDE_DIRS
         (Dir [(''a.txt'', File 307200), (''b.txt'', File 204800),
               (''node_modules'', Dir [(''x.js'', File 1048576)])])
         ''node_modules'' ''x.js'' (File 1048576)
   \<and> scan_entries [(''node_modules'', Dir [(''x.js'', File 1048576)])] [] COMMON_EXCLUDE_DIRS =
     ([\<lparr>path = ''node_modules'', isDirectory = True, size' = 0\<rparr>], [])
   \<and> list_all (\<lambda>it. \<not> prefix ''node_modules/'' (path it))
        (fst (scanDirectory
           (Dir [(''a.txt'', File 307200), (''b.txt'', File 204800),
                 (''node_modules'', Dir [(''x.js'', File 1048576)])]) COMMON_EXCLUDE_DIRS))
   \<and> \<lparr>path = ''node_modules'', isDirectory = True, size' = 1048576\<rparr>
        \<notin> set (fst (scanDirectory
           (Dir [(''a.txt'', File 307200), (''b.txt'', File 204800),
                 (''node_modules'', Dir [(''x.js'', File 1048576)])]) COMMON_EXCLUDE_DIRS))"
proof -
  let ?nm = "Dir [(''x.js'', File 1048576)]"
  let ?root = "Dir [(''a.txt'', File 307200), (''b.txt'', File 204800), (''node_modules'', ?nm)]"
  have sk: "shouldSkip COMMON_EXCLUDE_DIRS ''node_modules'' [] (path_join [] ''node_modules'')"
    by code_simp
  have st: "statSync ?nm = Some \<lparr>stat_isDirectory = True, stat_size = 0\<rparr>
            \<and> stat_isDirectory \<lparr>stat_isDirectory = True, stat_size = 0\<rparr>"
    by simp
  have vn: "validNames ?root" by simp
  have pj: "path_join [] ''node_modules'' = ''node_modules''" by (simp add: path_join_def)
  have en: "encountered COMMON_EXCLUDE_DIRS ?root [] ''node_modules'' ?nm"
    by (rule encountered.top) simp
  have ne: "''node_modules'' \<noteq> []" by simp
  from scan_skip_directory
         [where skipDirs = COMMON_EXCLUDE_DIRS and entry = "''node_modules''" and baseDir = "[]"
            and node = ?nm and st = "\<lparr>stat_isDirectory = True, stat_size = 0\<rparr>"
            and rootDir = ?root] en sk st
  have "\<lparr>path = path_join [] ''node_modules'', isDirectory = True, size' = 0\<rparr>
        \<in> set (fst (scanDirectory ?root COMMON_EXCLUDE_DIRS))"
    by blast
  then have p0: "\<lparr>path = ''node_modules'', isDirectory = True, size' = 0\<rparr>
        \<in> set (fst (scanDirectory ?root COMMON_EXCLUDE_DIRS))"
    by (simp only: pj)
  from scan_skip_directory
         [where skipDirs = COMMON_EXCLUDE_DIRS and entry = "''node_modules''" and baseDir = "[]"
            and rootDir = ?root and entry' = "''x.js''" and node' = "File 1048576"] sk ne
  have "\<not> encountered COMMON_EXCLUDE_DIRS ?root (path_join [] ''node_modules'') ''x.js''
          (File 1048576)"
    by blast
  then have q0: "\<not> encountered COMMON_EXCLUDE_DIRS ?root ''node_modules'' ''x.js'' (File 1048576)"
    by (simp only: pj simp_thms)
  from scan_skip_directory
         [where skipDirs = COMMON_EXCLUDE_DIRS and entry = "''node_modules''" and baseDir = "[]"
            and node = ?nm and st = "\<lparr>stat_isDirectory = True, stat_size = 0\<rparr>"
            and entries = "[]"] sk st
  have "scan_entries [(''node_modules'', ?nm)] [] COMMON_EXCLUDE_DIRS =
        (\<lparr>path = path_join [] ''node_modules'', isDirectory = True, size' = 0\<rparr>
           # fst (scan_entries [] [] COMMON_EXCLUDE_DIRS),
         snd (scan_entries [] [] COMMON_EXCLUDE_DIRS))"
    by blast
  then have p1: "scan_entries [(''node_modules'', ?nm)] [] COMMON_EXCLUDE_DIRS =
     ([\<lparr>path = ''node_modules'', isDirectory = True, size' = 0\<rparr>], [])"
    by (simp only: pj scan_entries.simps fst_conv snd_conv)
  from scan_skip_directory
         [where skipDirs = COMMON_EXCLUDE_DIRS and entry = "''node_modules''" and baseDir = "[]"
            and rootDir = ?root] sk vn
  have "\<forall>it\<in>set (fst (scanDirectory ?root COMMON_EXCLUDE_DIRS)).
           \<not> prefix (path_join [] ''node_modules'' @ ''/'') (path it)"
    by blast
  then have p2: "list_all (\<lambda>it. \<not> prefix ''node_modules/'' (path it))
        (fst (scanDirectory ?root COMMON_EXCLUDE_DIRS))"
    by (simp add: list_all_iff pj)
  from scan_skip_directory [where skipDirs = COMMON_EXCLUDE_DIRS and rootDir = ?root]
  have z: "\<forall>it\<in>set (fst (scanDirectory ?root COMMON_EXCLUDE_DIRS)).
        isDirectory it \<and> path it \<in> set COMMON_EXCLUDE_DIRS \<longrightarrow> size' it = 0"
    by blast
  have "''node_modules'' \<in> set COMMON_EXCLUDE_DIRS" by (simp add: COMMON_EXCLUDE_DIRS_def)
  with z have p3: "\<lparr>path = ''node_modules'', isDirectory = True, size' = 1048576\<rparr>
        \<notin> set (fst (scanDirectory ?root COMMON_EXCLUDE_DIRS))"
    by fastforce
  from p0 q0 p1 p2 p3 show ?thesis by blast
qed

section \<open>Nested directories named like a skip directory\<close>

lemma split_at_first:
  "c \<notin> set a \<Longrightarrow> c \<notin> set a' \<Longrightarrow> a @ c # b = a' @ c # b' \<Longrightarrow> a = a' \<and> b = b'"
proof (induction a arbitrary: a')
  case Nil
  then show ?case by (cases a') auto
next
  case (Cons x xs)
  show ?case
  proof (cases a')
    case Nil
    with Cons.prems show ?thesis by auto
  next
    case (Cons y ys)
    with Cons.prems Cons.IH [of ys] show ?thesis by auto
  qed
qed

lemma test_NotSlashStar:
  "test (NotSlashStar # r) s = (\<exists>u v. s = u @ v \<and> CHR ''/'' \<notin> set u \<and> test r v)"
proof (induction s)
  case Nil
  show ?case by simp
next
  case (Cons x s)
  show ?case
  proof
    assume "test (NotSlashStar # r) (x # s)"
    then consider "test r (x # s)" | "x \<noteq> CHR ''/''" "test (NotSlashStar # r) s" by auto
    then show "\<exists>u v. x # s = u @ v \<and> CHR ''/'' \<notin> set u \<and> test r v"
    proof cases
      case 1
      then have "x # s = [] @ (x # s) \<and> CHR ''/'' \<notin> set [] \<and> test r (x # s)" by simp
      then show ?thesis by blast
    next
      case 2
      with Cons obtain u v where "s = u @ v" "CHR ''/'' \<notin> set u" "test r v" by blast
      with 2(1) have "x # s = (x # u) @ v \<and> CHR ''/'' \<notin> set (x # u) \<and> test r v" by simp
      then show ?thesis by blast
    qed
  next
    assume "\<exists>u v. x # s = u @ v \<and> CHR ''/'' \<notin> set u \<and> test r v"
    then obtain u v where uv: "x # s = u @ v" "CHR ''/'' \<notin> set u" "test r v" by blast
    show "test (NotSlashStar # r) (x # s)"
    proof (cases u)
      case Nil
      with uv show ?thesis by simp
    next
      case (Cons y u')
      with uv have "x = y" "s = u' @ v" "CHR ''/'' \<notin> set u'" "x \<noteq> CHR ''/''" by auto
      with uv(3) Cons.IH show ?thesis by auto
    qed
  qed
qed

lemma test_Lit: "test (Lit c # r) s = (\<exists>t. s = c # t \<and> test r t)"
  by (cases s) auto

lemma test_AnyChar:
  "test (AnyChar # r) s = (\<exists>x t. s = x # t \<and> \<not> lineTerminator x \<and> test r t)"
  by (cases s) auto

lemma test_Lits: "test (map Lit w) s = (s = w)"
proof (induction w arbitrary: s)
  case Nil
  show ?case by simp
next
  case (Cons c w)
  have "test (map Lit (c # w)) s = (\<exists>t. s = c # t \<and> test (map Lit w) t)"
    by (simp only: list.map test_Lit)
  also have "\<dots> = (s = c # w)" by (auto simp: Cons)
  finally show ?case .
qed

lemma test_min_pattern:
  assumes "test (NotSlashStar # AnyChar # Lit (CHR ''m'') # Lit (CHR ''i'') # Lit (CHR ''n'')
                   # AnyChar # map Lit ext) p"
  shows "\<exists>u c d. p = u @ c # ''min'' @ d # ext \<and> CHR ''/'' \<notin> set u"
proof -
  from assms obtain u v where uv: "p = u @ v" "CHR ''/'' \<notin> set u"
    "test (AnyChar # Lit (CHR ''m'') # Lit (CHR ''i'') # Lit (CHR ''n'') # AnyChar # map Lit ext) v"
    unfolding test_NotSlashStar by blast
  from uv(3) obtain c v1 where v1: "v = c # v1"
    "test (Lit (CHR ''m'') # Lit (CHR ''i'') # Lit (CHR ''n'') # AnyChar # map Lit ext) v1"
    unfolding test_AnyChar by blast
  from v1(2) obtain v2 where v2: "v1 = CHR ''m'' # v2"
    "test (Lit (CHR ''i'') # Lit (CHR ''n'') # AnyChar # map Lit ext) v2"
    unfolding test_Lit by blast
  from v2(2) obtain v3 where v3: "v2 = CHR ''i'' # v3"
    "test (Lit (CHR ''n'') # AnyChar # map Lit ext) v3"
    unfolding test_Lit by blast
  from v3(2) obtain v4 where v4: "v3 = CHR ''n'' # v4" "test (AnyChar # map Lit ext) v4"
    unfolding test_Lit by blast
  from v4(2) obtain d v5 where v5: "v4 = d # v5" "test (map Lit ext) v5"
    unfolding test_AnyChar by blast
  from v5(2) have "v5 = ext" by (simp only: test_Lits)
  with uv(1,2) v1(1) v2(1) v3(1) v4(1) v5(1)
  have "p = u @ c # ''min'' @ d # ext \<and> CHR ''/'' \<notin> set u" by simp
  then show ?thesis by blast
qed

lemma nested_component_slashes:
  assumes "sublist (''/'' @ name @ ''/'') p"
  shows "2 \<le> count_list p (CHR ''/'')"
proof -
  from assms obtain ps ss where "p = ps @ (''/'' @ name @ ''/'') @ ss"
    unfolding sublist_def by blast
  then show ?thesis by simp
qed

lemma nested_component:
  assumes p: "p = a @ CHR ''/'' # b @ CHR ''/'' # e"
    and a: "CHR ''/'' \<notin> set a" and b: "CHR ''/'' \<notin> set b" and e: "CHR ''/'' \<notin> set e"
    and sub: "sublist (''/'' @ name @ ''/'') p" and name: "CHR ''/'' \<notin> set name"
  shows "name = b"
proof -
  from sub obtain ps ss where ps: "p = ps @ (''/'' @ name @ ''/'') @ ss"
    unfolding sublist_def by blast
  from name have cn: "count_list name (CHR ''/'') = 0" by (simp add: count_list_0_iff)
  from a have ca: "count_list a (CHR ''/'') = 0" by (simp add: count_list_0_iff)
  from b have cb: "count_list b (CHR ''/'') = 0" by (simp add: count_list_0_iff)
  from e have ce: "count_list e (CHR ''/'') = 0" by (simp add: count_list_0_iff)
  have c1: "count_list p (CHR ''/'') = count_list ps (CHR ''/'') + 2 + count_list ss (CHR ''/'')"
    unfolding ps by (simp add: cn)
  have c2: "count_list p (CHR ''/'') = 2"
    unfolding p by (simp add: ca cb ce)
  from c1 c2 have "count_list ps (CHR ''/'') = 0" by simp
  then have nps: "CHR ''/'' \<notin> set ps" by (simp add: count_list_0_iff)
  from p ps
  have e1: "a @ CHR ''/'' # (b @ CHR ''/'' # e) = ps @ CHR ''/'' # (name @ CHR ''/'' # ss)"
    by simp
  from split_at_first [OF a nps e1]
  have e2: "b @ CHR ''/'' # e = name @ CHR ''/'' # ss" by (rule conjunct2)
  from split_at_first [OF b name e2] show ?thesis by simp
qed

lemma nested_component_min:
  assumes p: "p = u @ c # ''min'' @ d # ext" and u: "CHR ''/'' \<notin> set u"
    and ext: "CHR ''/'' \<notin> set ext"
    and sub: "sublist (''/'' @ name @ ''/'') p" and name: "CHR ''/'' \<notin> set name"
  shows "name = ''min''"
proof -
  from u have cu: "count_list u (CHR ''/'') = 0" by (simp add: count_list_0_iff)
  from ext have ce: "count_list ext (CHR ''/'') = 0" by (simp add: count_list_0_iff)
  have "count_list p (CHR ''/'') =
      (if c = CHR ''/'' then 1 else 0) + (if d = CHR ''/'' then 1 else 0)"
    unfolding p by (simp add: cu ce)
  with nested_component_slashes [OF sub] have "c = CHR ''/'' \<and> d = CHR ''/''"
    by (simp split: if_splits)
  with p have "p = u @ CHR ''/'' # ''min'' @ CHR ''/'' # ext" by simp
  from nested_component [OF this u _ ext sub name] show ?thesis by simp
qed

lemma isExcluded_none_matches:
  "\<forall>pattern\<in>set patterns. isPathExcluded js itemPath pattern isDir = Some False \<Longrightarrow>
   isExcluded js itemPath patterns isDir = Some False"
  by (induction patterns) simp_all

lemma min_js_regex:
  "isPathExcluded js p ''*.min.js'' isDir =
     Some (test (NotSlashStar # AnyChar # Lit (CHR ''m'') # Lit (CHR ''i'') # Lit (CHR ''n'')
                   # AnyChar # map Lit ''js'') p)"
proof -
  have "withinFragment ''*.min.js''" "\<not> endsWith ''*.min.js'' ''/**''" by code_simp+
  moreover have "CHR ''*'' \<in> set ''*.min.js''" by simp
  ultimately have "isPathExcluded js p ''*.min.js'' isDir =
           Some (test (map atomOf (replaceAll_star_star ''*.min.js'')) p)"
    by (rule isPathExcluded_wildcard)
  then show ?thesis by (simp add: atomOf_def)
qed

lemma min_css_regex:
  "isPathExcluded js p ''*.min.css'' isDir =
     Some (test (NotSlashStar # AnyChar # Lit (CHR ''m'') # Lit (CHR ''i'') # Lit (CHR ''n'')
                   # AnyChar # map Lit ''css'') p)"
proof -
  have "withinFragment ''*.min.css''" "\<not> endsWith ''*.min.css'' ''/**''" by code_simp+
  moreover have "CHR ''*'' \<in> set ''*.min.css''" by simp
  ultimately have "isPathExcluded js p ''*.min.css'' isDir =
           Some (test (map atomOf (replaceAll_star_star ''*.min.css'')) p)"
    by (rule isPathExcluded_wildcard)
  then show ?thesis by (simp add: atomOf_def)
qed

lemma default_dirs_not_nested:
  assumes sub: "sublist (''/'' @ name @ ''/'') p" and name: "CHR ''/'' \<notin> set name"
    and nm: "name \<in> set COMMON_EXCLUDE_DIRS"
  shows "p \<notin> set COMMON_EXCLUDE_DIRS"
proof
  assume "p \<in> set COMMON_EXCLUDE_DIRS"
  with nested_component_slashes [OF sub] have "p = ''src/assets/images''"
    by (auto simp: COMMON_EXCLUDE_DIRS_def)
  then have "p = ''src'' @ CHR ''/'' # ''assets'' @ CHR ''/'' # ''images''" by simp
  from nested_component [OF this _ _ _ sub name] have "name = ''assets''" by simp
  with nm show False by (simp add: COMMON_EXCLUDE_DIRS_def)
qed

lemma nested_default_not_excluded:
  assumes vn: "validNames rootDir"
    and it: "it \<in> set (fst (scanDirectory rootDir COMMON_EXCLUDE_DIRS))"
    and nm: "name \<in> set COMMON_EXCLUDE_DIRS" and name: "CHR ''/'' \<notin> set name"
    and sub: "sublist (''/'' @ name @ ''/'') (path it)"
  shows "\<forall>pattern\<in>set defaultExcludes. isPathExcluded js (path it) pattern False = Some False"
proof -
  have slash: "CHR ''/'' \<in> set (path it)"
  proof (rule ccontr)
    assume "CHR ''/'' \<notin> set (path it)"
    then have "count_list (path it) (CHR ''/'') = 0" by (simp add: count_list_0_iff)
    with nested_component_slashes [OF sub] show False by simp
  qed
  have nmin: "name \<noteq> ''min''" using nm by (auto simp: COMMON_EXCLUDE_DIRS_def)
  have dirs: "isPathExcluded js (path it) (d @ ''/**'') False = Some False"
    if "d \<in> set COMMON_EXCLUDE_DIRS" for d
  proof -
    from that default_dirs_not_nested [OF sub name nm] have "path it \<noteq> d" by auto
    moreover from scanDirectory_below_skip [OF vn it that]
    have "\<not> prefix (d @ ''/'') (path it)" .
    ultimately show ?thesis by (simp add: isPathExcluded_subtree)
  qed
  have lit: "isPathExcluded js (path it) f False = Some False"
    if "CHR ''*'' \<notin> set f" "CHR ''/'' \<notin> set f" for f
  proof -
    from that(2) slash have "path it \<noteq> f" by auto
    with that(1) show ?thesis by (simp add: isPathExcluded_literal)
  qed
  have js: "isPathExcluded js (path it) ''*.min.js'' False = Some False"
  proof -
    have "\<not> test (NotSlashStar # AnyChar # Lit (CHR ''m'') # Lit (CHR ''i'') # Lit (CHR ''n'')
                   # AnyChar # map Lit ''js'') (path it)"
    proof
      assume "test (NotSlashStar # AnyChar # Lit (CHR ''m'') # Lit (CHR ''i'') # Lit (CHR ''n'')
                   # AnyChar # map Lit ''js'') (path it)"
      from test_min_pattern [OF this] obtain u c d where
        "path it = u @ c # ''min'' @ d # ''js''" "CHR ''/'' \<notin> set u" by blast
      from nested_component_min [OF this _ sub name] nmin show False by simp
    qed
    then show ?thesis by (simp only: min_js_regex)
  qed
  have css: "isPathExcluded js (path it) ''*.min.css'' False = Some False"
  proof -
    have "\<not> test (NotSlashStar # AnyChar # Lit (CHR ''m'') # Lit (CHR ''i'') # Lit (CHR ''n'')
                   # AnyChar # map Lit ''css'') (path it)"
    proof
      assume "test (NotSlashStar # AnyChar # Lit (CHR ''m'') # Lit (CHR ''i'') # Lit (CHR ''n'')
                   # AnyChar # map Lit ''css'') (path it)"
      from test_min_pattern [OF this] obtain u c d where
        "path it = u @ c # ''min'' @ d # ''css''" "CHR ''/'' \<notin> set u" by blast
      from nested_component_min [OF this _ sub name] nmin show False by simp
    qed
    then show ?thesis by (simp only: min_css_regex)
  qed
  have files: "isPathExcluded js (path it) f False = Some False"
    if "f \<in> set COMMON_EXCLUDE_FILES" for f
  proof -
    from that consider "f = ''*.min.js''" | "f = ''*.min.css''"
      | "CHR ''*'' \<notin> set f \<and> CHR ''/'' \<notin> set f"
      by (auto simp: COMMON_EXCLUDE_FILES_def)
    then show ?thesis
    proof cases
      case 1
      with js show ?thesis by simp
    next
      case 2
      with css show ?thesis by simp
    next
      case 3
      with lit show ?thesis by blast
    qed
  qed
  show ?thesis
  proof
    fix pattern assume "pattern \<in> set defaultExcludes"
    then consider d where "d \<in> set COMMON_EXCLUDE_DIRS" "pattern = d @ ''/**''"
      | "pattern \<in> set COMMON_EXCLUDE_FILES"
      by (auto simp: defaultExcludes_def)
    then show "isPathExcluded js (path it) pattern False = Some False"
    proof cases
      case 1
      with dirs show ?thesis by simp
    next
      case 2
      with files show ?thesis by simp
    qed
  qed
qed

text \<open>
  Claim C9, as stated, fails on the code. The built-in skip list holds the name
  \<open>images\<close> and the path \<open>assets/images\<close>: the directory \<open>assets/images\<close> is at
  depth one, its bare name is in the skip set, and the scanner does not descend into it,
  because its relative path is a skip entry too.
\<close>

theorem nested_skip_name_counterexample:
  "''images'' \<in> set COMMON_EXCLUDE_DIRS
   \<and> fst (scanDirectory
         (Dir [(''assets'', Dir [(''images'', Dir [(''logo.png'', File 2048)])])])
         COMMON_EXCLUDE_DIRS) =
       [\<lparr>path = ''assets'', isDirectory = True, size' = 2048\<rparr>,
        \<lparr>path = ''assets/images'', isDirectory = True, size' = 0\<rparr>]"
  by code_simp

lemma withinFragment_returns: "withinFragment pattern \<Longrightarrow> \<not> throwsOn js pattern"
  using isPathExcluded_defined [of pattern js "[]" False]
    isPathExcluded_throws [of js "[]" pattern False]
  by auto

lemma defaultExcludes_return: "\<not> list_ex (throwsOn js) defaultExcludes"
proof -
  have "list_all withinFragment defaultExcludes" by code_simp
  then show ?thesis by (auto simp: list_all_iff list_ex_iff withinFragment_returns)
qed

lemma estimateFinalSize_defaults:
  "estimateFinalSize js items defaultExcludes =
     Some (sum_list (map size' (filter (counted js defaultExcludes) items))
           + markdownOverhead items)"
proof (cases "estimateFinalSize js items defaultExcludes")
  case None
  from estimateFinalSize_throws [OF None] defaultExcludes_return [of js] show ?thesis by blast
next
  case (Some t)
  from estimateFinalSize_Some [OF Some] Some show ?thesis by simp
qed

lemma nested_not_skipped:
  "baseDir \<noteq> [] \<Longrightarrow> path_join baseDir entry \<notin> set skipDirs \<Longrightarrow>
   \<not> shouldSkip skipDirs entry baseDir (path_join baseDir entry)"
  using shouldSkip_in_skipDirs [of skipDirs entry baseDir] by blast

lemma nested_child_path:
  "baseDir \<noteq> [] \<Longrightarrow>
   sublist (''/'' @ entry @ ''/'') (path_join (path_join baseDir entry) f)"
proof -
  assume "baseDir \<noteq> []"
  then have "path_join (path_join baseDir entry) f = baseDir @ (''/'' @ entry @ ''/'') @ f"
    by (simp add: path_join_def)
  then show ?thesis unfolding sublist_def by blast
qed

text \<open>
  Claim C9, amended. A skip name without a separator suppresses only the top-level
  directory of that name. When the scanner meets a directory below the top level whose
  relative path is not itself in the skip set (whether or not its bare name is), the
  returned sequence holds the directory with its computed size, the scanner descends
  into it and meets each of its entries, and the returned sequence holds its files;
  every entry the scanner meets and can stat has its item in the returned sequence.
  For every returned item below the top level and every skip name without a separator,
  the pattern made of that name and \<open>/**\<close> does not match the item's path. With the
  built-in skip list and the built-in exclude set, the files of such a directory whose
  bare name is a skip name are in the returned sequence and are matched by no default
  pattern, so the estimator sums their sizes; the same holds of every returned file
  that lies below a component of that kind. The estimate of the returned sequence under
  the built-in exclude set is the sum of the sizes of the files that no default pattern
  matches, plus the overhead.
\<close>

theorem nested_skip_name_not_suppressed:
  "(encountered skipDirs rootDir baseDir entry (Dir sub)
      \<and> baseDir \<noteq> [] \<and> path_join baseDir entry \<notin> set skipDirs \<longrightarrow>
      \<lparr>path = path_join baseDir entry, isDirectory = True, size' = getDirSize (Dir sub)\<rparr>
        \<in> set (fst (scanDirectory rootDir skipDirs))
      \<and> (\<forall>e n. (e, n) \<in> set sub \<longrightarrow>
            encountered skipDirs rootDir (path_join baseDir entry) e n)
      \<and> (\<forall>f n. (f, File n) \<in> set sub \<longrightarrow>
            \<lparr>path = path_join (path_join baseDir entry) f, isDirectory = False, size' = n\<rparr>
              \<in> set (fst (scanDirectory rootDir skipDirs))))
   \<and> (encountered skipDirs rootDir baseDir entry node \<and> statSync node = Some st \<longrightarrow>
        (\<exists>it\<in>set (fst (scanDirectory rootDir skipDirs)).
           path it = path_join baseDir entry \<and> isDirectory it = stat_isDirectory st
           \<and> (\<not> stat_isDirectory st \<longrightarrow> size' it = stat_size st)))
   \<and> (baseDir \<noteq> [] \<and> path_join baseDir entry \<notin> set skipDirs \<longrightarrow>
      scan_entries ((entry, Dir sub) # entries) baseDir skipDirs =
        (\<lparr>path = path_join baseDir entry, isDirectory = True, size' = getDirSize (Dir sub)\<rparr>
           # fst (scan_entries sub (path_join baseDir entry) skipDirs)
           @ fst (scan_entries entries baseDir skipDirs),
         snd (scan_entries sub (path_join baseDir entry) skipDirs)
           @ snd (scan_entries entries baseDir skipDirs)))
   \<and> (validNames rootDir \<and> it \<in> set (fst (scanDirectory rootDir skipDirs))
        \<and> name \<in> set skipDirs \<and> CHR ''/'' \<notin> set name \<and> CHR ''/'' \<in> set (path it) \<longrightarrow>
        isPathExcluded js (path it) (name @ ''/**'') False = Some False)
   \<and> (validNames rootDir \<and> it \<in> set (fst (scanDirectory rootDir COMMON_EXCLUDE_DIRS))
        \<and> \<not> isDirectory it
        \<and> name \<in> set COMMON_EXCLUDE_DIRS \<and> CHR ''/'' \<notin> set name
        \<and> sublist (''/'' @ name @ ''/'') (path it) \<longrightarrow>
        isExcluded js (path it) defaultExcludes False = Some False
        \<and> counted js defaultExcludes it)
   \<and> (validNames rootDir
        \<and> encountered COMMON_EXCLUDE_DIRS rootDir baseDir entry (Dir sub)
        \<and> baseDir \<noteq> [] \<and> path_join baseDir entry \<notin> set COMMON_EXCLUDE_DIRS
        \<and> entry \<in> set COMMON_EXCLUDE_DIRS \<and> CHR ''/'' \<notin> set entry
        \<and> (f, File n) \<in> set sub \<longrightarrow>
        \<lparr>path = path_join (path_join baseDir entry) f, isDirectory = False, size' = n\<rparr>
          \<in> set (fst (scanDirectory rootDir COMMON_EXCLUDE_DIRS))
        \<and> isPathExcluded js (path_join (path_join baseDir entry) f) (entry @ ''/**'') False
            = Some False
        \<and> counted js defaultExcludes
            \<lparr>path = path_join (path_join baseDir entry) f, isDirectory = False, size' = n\<rparr>)
   \<and> estimateFinalSize js (fst (scanDirectory rootDir COMMON_EXCLUDE_DIRS)) defaultExcludes =
        Some (sum_list (map size' (filter (counted js defaultExcludes)
                (fst (scanDirectory rootDir COMMON_EXCLUDE_DIRS))))
              + markdownOverhead (fst (scanDirectory rootDir COMMON_EXCLUDE_DIRS)))"
proof -
  have met: "\<lparr>path = path_join (path_join b e) f', isDirectory = False, size' = m\<rparr>
              \<in> set (fst (scanDirectory r sk))"
    if "encountered sk r b e (Dir s)" "b \<noteq> []" "path_join b e \<notin> set sk" "(f', File m) \<in> set s"
    for sk r b e s f' m
  proof -
    from that(2,3) have "\<not> shouldSkip sk e b (path_join b e)" by (rule nested_not_skipped)
    with that(1,4) have "encountered sk r (path_join b e) f' (File m)"
      by (blast intro: encountered.below)
    from encountered_item [OF this, of "\<lparr>stat_isDirectory = False, stat_size = m\<rparr>"]
    show ?thesis by simp
  qed
  have p: "encountered skipDirs rootDir baseDir entry (Dir sub)
      \<and> baseDir \<noteq> [] \<and> path_join baseDir entry \<notin> set skipDirs \<longrightarrow>
      \<lparr>path = path_join baseDir entry, isDirectory = True, size' = getDirSize (Dir sub)\<rparr>
        \<in> set (fst (scanDirectory rootDir skipDirs))
      \<and> (\<forall>e n. (e, n) \<in> set sub \<longrightarrow>
            encountered skipDirs rootDir (path_join baseDir entry) e n)
      \<and> (\<forall>f n. (f, File n) \<in> set sub \<longrightarrow>
            \<lparr>path = path_join (path_join baseDir entry) f, isDirectory = False, size' = n\<rparr>
              \<in> set (fst (scanDirectory rootDir skipDirs)))"
  proof (intro impI conjI allI)
    assume h: "encountered skipDirs rootDir baseDir entry (Dir sub)
      \<and> baseDir \<noteq> [] \<and> path_join baseDir entry \<notin> set skipDirs"
    then have ns: "\<not> shouldSkip skipDirs entry baseDir (path_join baseDir entry)"
      by (simp add: nested_not_skipped)
    from h encountered_item [of skipDirs rootDir baseDir entry "Dir sub"
        "\<lparr>stat_isDirectory = True, stat_size = 0\<rparr>"] ns
    show "\<lparr>path = path_join baseDir entry, isDirectory = True, size' = getDirSize (Dir sub)\<rparr>
        \<in> set (fst (scanDirectory rootDir skipDirs))" by simp
    fix e n assume "(e, n) \<in> set sub"
    with h ns show "encountered skipDirs rootDir (path_join baseDir entry) e n"
      by (blast intro: encountered.below)
  next
    fix f n
    assume h: "encountered skipDirs rootDir baseDir entry (Dir sub)
      \<and> baseDir \<noteq> [] \<and> path_join baseDir entry \<notin> set skipDirs"
      and "(f, File n) \<in> set sub"
    then show "\<lparr>path = path_join (path_join baseDir entry) f, isDirectory = False, size' = n\<rparr>
              \<in> set (fst (scanDirectory rootDir skipDirs))"
      using met [of skipDirs rootDir baseDir entry sub f n] by blast
  qed
  have g: "encountered skipDirs rootDir baseDir entry node \<and> statSync node = Some st \<longrightarrow>
        (\<exists>it\<in>set (fst (scanDirectory rootDir skipDirs)).
           path it = path_join baseDir entry \<and> isDirectory it = stat_isDirectory st
           \<and> (\<not> stat_isDirectory st \<longrightarrow> size' it = stat_size st))"
  proof
    assume "encountered skipDirs rootDir baseDir entry node \<and> statSync node = Some st"
    then have "\<lparr>path = path_join baseDir entry, isDirectory = stat_isDirectory st,
          size' = (if stat_isDirectory st
                   then (if shouldSkip skipDirs entry baseDir (path_join baseDir entry)
                         then 0 else getDirSize node)
                   else stat_size st)\<rparr>
         \<in> set (fst (scanDirectory rootDir skipDirs))"
      using encountered_item [of skipDirs rootDir baseDir entry node st] by blast
    then show "\<exists>it\<in>set (fst (scanDirectory rootDir skipDirs)).
           path it = path_join baseDir entry \<and> isDirectory it = stat_isDirectory st
           \<and> (\<not> stat_isDirectory st \<longrightarrow> size' it = stat_size st)"
      by (rule rev_bexI) simp
  qed
  have a: "baseDir \<noteq> [] \<and> path_join baseDir entry \<notin> set skipDirs \<longrightarrow>
      scan_entries ((entry, Dir sub) # entries) baseDir skipDirs =
        (\<lparr>path = path_join baseDir entry, isDirectory = True, size' = getDirSize (Dir sub)\<rparr>
           # fst (scan_entries sub (path_join baseDir entry) skipDirs)
           @ fst (scan_entries entries baseDir skipDirs),
         snd (scan_entries sub (path_join baseDir entry) skipDirs)
           @ snd (scan_entries entries baseDir skipDirs))"
  proof
    assume h: "baseDir \<noteq> [] \<and> path_join baseDir entry \<notin> set skipDirs"
    then have "\<not> shouldSkip skipDirs entry baseDir (path_join baseDir entry)"
      by (simp add: nested_not_skipped)
    then show "scan_entries ((entry, Dir sub) # entries) baseDir skipDirs =
        (\<lparr>path = path_join baseDir entry, isDirectory = True, size' = getDirSize (Dir sub)\<rparr>
           # fst (scan_entries sub (path_join baseDir entry) skipDirs)
           @ fst (scan_entries entries baseDir skipDirs),
         snd (scan_entries sub (path_join baseDir entry) skipDirs)
           @ snd (scan_entries entries baseDir skipDirs))"
      by (simp add: Let_def)
  qed
  have b: "validNames r \<and> i \<in> set (fst (scanDirectory r sk))
        \<and> nm \<in> set sk \<and> CHR ''/'' \<notin> set nm \<and> CHR ''/'' \<in> set (path i) \<longrightarrow>
        isPathExcluded js (path i) (nm @ ''/**'') False = Some False" for r i sk nm
  proof
    assume h: "validNames r \<and> i \<in> set (fst (scanDirectory r sk))
        \<and> nm \<in> set sk \<and> CHR ''/'' \<notin> set nm \<and> CHR ''/'' \<in> set (path i)"
    then have "path i \<noteq> nm" by auto
    moreover from h have "\<not> prefix (nm @ ''/'') (path i)"
      using scanDirectory_below_skip [of r i sk nm] by blast
    ultimately show "isPathExcluded js (path i) (nm @ ''/**'') False = Some False"
      by (simp add: isPathExcluded_subtree)
  qed
  have c: "validNames r \<and> i \<in> set (fst (scanDirectory r COMMON_EXCLUDE_DIRS))
        \<and> \<not> isDirectory i
        \<and> nm \<in> set COMMON_EXCLUDE_DIRS \<and> CHR ''/'' \<notin> set nm
        \<and> sublist (''/'' @ nm @ ''/'') (path i) \<longrightarrow>
        isExcluded js (path i) defaultExcludes False = Some False
        \<and> counted js defaultExcludes i" for r i nm
  proof
    assume h: "validNames r \<and> i \<in> set (fst (scanDirectory r COMMON_EXCLUDE_DIRS))
        \<and> \<not> isDirectory i
        \<and> nm \<in> set COMMON_EXCLUDE_DIRS \<and> CHR ''/'' \<notin> set nm
        \<and> sublist (''/'' @ nm @ ''/'') (path i)"
    then have all: "\<forall>pattern\<in>set defaultExcludes.
        isPathExcluded js (path i) pattern False = Some False"
      using nested_default_not_excluded [of r i nm js] by blast
    then have "isExcluded js (path i) defaultExcludes False = Some False"
      by (rule isExcluded_none_matches)
    moreover from all h have "counted js defaultExcludes i"
      by (auto simp: counted_def list_ex_iff)
    ultimately show "isExcluded js (path i) defaultExcludes False = Some False
        \<and> counted js defaultExcludes i" by blast
  qed
  have d: "validNames rootDir
        \<and> encountered COMMON_EXCLUDE_DIRS rootDir baseDir entry (Dir sub)
        \<and> baseDir \<noteq> [] \<and> path_join baseDir entry \<notin> set COMMON_EXCLUDE_DIRS
        \<and> entry \<in> set COMMON_EXCLUDE_DIRS \<and> CHR ''/'' \<notin> set entry
        \<and> (f, File n) \<in> set sub \<longrightarrow>
        \<lparr>path = path_join (path_join baseDir entry) f, isDirectory = False, size' = n\<rparr>
          \<in> set (fst (scanDirectory rootDir COMMON_EXCLUDE_DIRS))
        \<and> isPathExcluded js (path_join (path_join baseDir entry) f) (entry @ ''/**'') False
            = Some False
        \<and> counted js defaultExcludes
            \<lparr>path = path_join (path_join baseDir entry) f, isDirectory = False, size' = n\<rparr>"
  proof
    let ?it = "\<lparr>path = path_join (path_join baseDir entry) f, isDirectory = False, size' = n\<rparr>"
    assume h: "validNames rootDir
        \<and> encountered COMMON_EXCLUDE_DIRS rootDir baseDir entry (Dir sub)
        \<and> baseDir \<noteq> [] \<and> path_join baseDir entry \<notin> set COMMON_EXCLUDE_DIRS
        \<and> entry \<in> set COMMON_EXCLUDE_DIRS \<and> CHR ''/'' \<notin> set entry
        \<and> (f, File n) \<in> set sub"
    then have m: "?it \<in> set (fst (scanDirectory rootDir COMMON_EXCLUDE_DIRS))"
      using met [of COMMON_EXCLUDE_DIRS rootDir baseDir entry sub f n] by blast
    from h have "baseDir \<noteq> []" by blast
    then have "sublist (''/'' @ entry @ ''/'') (path_join (path_join baseDir entry) f)"
      by (rule nested_child_path)
    then have sl: "sublist (''/'' @ entry @ ''/'') (path ?it)"
      by (simp only: item.simps)
    have "CHR ''/'' \<in> set (path ?it)"
    proof (rule ccontr)
      assume "CHR ''/'' \<notin> set (path ?it)"
      then have "count_list (path ?it) (CHR ''/'') = 0" by (simp add: count_list_0_iff)
      with nested_component_slashes [OF sl] show False by simp
    qed
    with h m b [of rootDir ?it COMMON_EXCLUDE_DIRS entry]
    have "isPathExcluded js (path ?it) (entry @ ''/**'') False = Some False" by blast
    moreover from h m sl c [of rootDir ?it entry]
    have "counted js defaultExcludes ?it" by simp
    ultimately show "?it \<in> set (fst (scanDirectory rootDir COMMON_EXCLUDE_DIRS))
        \<and> isPathExcluded js (path_join (path_join baseDir entry) f) (entry @ ''/**'') False
            = Some False
        \<and> counted js defaultExcludes ?it"
      using m by simp
  qed
  have e: "estimateFinalSize js (fst (scanDirectory rootDir COMMON_EXCLUDE_DIRS)) defaultExcludes =
        Some (sum_list (map size' (filter (counted js defaultExcludes)
                (fst (scanDirectory rootDir COMMON_EXCLUDE_DIRS))))
              + markdownOverhead (fst (scanDirectory rootDir COMMON_EXCLUDE_DIRS)))"
    by (rule estimateFinalSize_defaults)
  from p g a b [of rootDir it skipDirs name] c [of rootDir it name] d e show ?thesis by blast
qed

theorem nested_skip_name_not_suppressed_witness:
  "\<lparr>path = ''sub/node_modules/x.js'', isDirectory = False, size' = 1000\<rparr>
     \<in> set (fst (scanDirectory
           (Dir [(''sub'', Dir [(''node_modules'', Dir [(''x.js'', File 1000)])])])
           COMMON_EXCLUDE_DIRS))
   \<and> isPathExcluded exampleEngine ''sub/node_modules/x.js'' ''node_modules/**'' False = Some False
   \<and> counted exampleEngine defaultExcludes
        \<lparr>path = ''sub/node_modules/x.js'', isDirectory = False, size' = 1000\<rparr>
   \<and> scan_entries [(''node_modules'', Dir [(''x.js'', File 1000)])] ''sub'' COMMON_EXCLUDE_DIRS =
     ([\<lparr>path = ''sub/node_modules'', isDirectory = True, size' = 1000\<rparr>,
       \<lparr>path = ''sub/node_modules/x.js'', isDirectory = False, size' = 1000\<rparr>], [])
   \<and> isExcluded exampleEngine ''sub/node_modules/x.js'' defaultExcludes False = Some False
   \<and> estimateFinalSize exampleEngine
        (fst (scanDirectory
           (Dir [(''sub'', Dir [(''node_modules'', Dir [(''x.js'', File 1000)])])])
           COMMON_EXCLUDE_DIRS))
        defaultExcludes = Some 1300
   \<and> \<lparr>path = ''sub/node_modules'', isDirectory = True, size' = 1000\<rparr>
     \<in> set (fst (scanDirectory
           (Dir [(''sub'', Dir [(''node_modules'', Dir [(''x.js'', File 1000)])])])
           COMMON_EXCLUDE_DIRS))"
proof -
  let ?nm = "[(''x.js'', File 1000)]"
  let ?sub = "[(''node_modules'', Dir ?nm)]"
  let ?root = "Dir [(''sub'', Dir ?sub)]"
  let ?it = "\<lparr>path = ''sub/node_modules/x.js'', isDirectory = False, size' = 1000\<rparr>"
  have pj: "path_join ''sub'' ''node_modules'' = ''sub/node_modules''"
    "path_join (path_join ''sub'' ''node_modules'') ''x.js'' = ''sub/node_modules/x.js''"
    "path_join ''sub/node_modules'' ''x.js'' = ''sub/node_modules/x.js''"
    "path_join [] ''sub'' = ''sub''"
    by (simp_all add: path_join_def)
  have vn: "validNames ?root" by simp
  have top: "encountered COMMON_EXCLUDE_DIRS ?root [] ''sub'' (Dir ?sub)"
    by (rule encountered.top) simp
  have "\<not> shouldSkip COMMON_EXCLUDE_DIRS ''sub'' [] (path_join [] ''sub'')" by code_simp
  with top have "encountered COMMON_EXCLUDE_DIRS ?root (path_join [] ''sub'') ''node_modules''
      (Dir ?nm)"
    by (rule encountered.below) simp
  then have en: "encountered COMMON_EXCLUDE_DIRS ?root ''sub'' ''node_modules'' (Dir ?nm)"
    by (simp only: pj)
  have h1: "''sub'' \<noteq> [] \<and> path_join ''sub'' ''node_modules'' \<notin> set COMMON_EXCLUDE_DIRS"
    by code_simp
  have nm: "''node_modules'' \<in> set COMMON_EXCLUDE_DIRS \<and> CHR ''/'' \<notin> set ''node_modules''"
    by code_simp
  have ch: "(''x.js'', File 1000) \<in> set ?nm" by simp
  from nested_skip_name_not_suppressed
         [where rootDir = ?root and baseDir = "''sub''" and entry = "''node_modules''"
            and sub = ?nm and f = "''x.js''" and n = 1000 and js = exampleEngine]
       vn en h1 nm ch
  have "\<lparr>path = path_join (path_join ''sub'' ''node_modules'') ''x.js'', isDirectory = False,
           size' = 1000\<rparr>
          \<in> set (fst (scanDirectory ?root COMMON_EXCLUDE_DIRS))
        \<and> isPathExcluded exampleEngine (path_join (path_join ''sub'' ''node_modules'') ''x.js'')
            (''node_modules'' @ ''/**'') False = Some False
        \<and> counted exampleEngine defaultExcludes
            \<lparr>path = path_join (path_join ''sub'' ''node_modules'') ''x.js'', isDirectory = False,
               size' = 1000\<rparr>"
    by blast
  then have p0: "?it \<in> set (fst (scanDirectory ?root COMMON_EXCLUDE_DIRS))
        \<and> isPathExcluded exampleEngine ''sub/node_modules/x.js'' ''node_modules/**'' False
            = Some False
        \<and> counted exampleEngine defaultExcludes ?it"
    by (simp only: pj append.simps)
  have below: "scan_entries ?nm ''sub/node_modules'' COMMON_EXCLUDE_DIRS = ([?it], [])"
    by code_simp
  have sz: "getDirSize (Dir ?nm) = 1000" by simp
  have nil: "scan_entries [] ''sub'' COMMON_EXCLUDE_DIRS = ([], [])" by simp
  from nested_skip_name_not_suppressed
         [where baseDir = "''sub''" and entry = "''node_modules''"
            and skipDirs = COMMON_EXCLUDE_DIRS and sub = ?nm and entries = "[]"] h1
  have "scan_entries [(''node_modules'', Dir ?nm)] ''sub'' COMMON_EXCLUDE_DIRS =
        (\<lparr>path = path_join ''sub'' ''node_modules'', isDirectory = True,
            size' = getDirSize (Dir ?nm)\<rparr>
           # fst (scan_entries ?nm (path_join ''sub'' ''node_modules'') COMMON_EXCLUDE_DIRS)
           @ fst (scan_entries [] ''sub'' COMMON_EXCLUDE_DIRS),
         snd (scan_entries ?nm (path_join ''sub'' ''node_modules'') COMMON_EXCLUDE_DIRS)
           @ snd (scan_entries [] ''sub'' COMMON_EXCLUDE_DIRS))"
    by blast
  then have p1: "scan_entries [(''node_modules'', Dir ?nm)] ''sub'' COMMON_EXCLUDE_DIRS =
     ([\<lparr>path = ''sub/node_modules'', isDirectory = True, size' = 1000\<rparr>, ?it], [])"
    by (simp only: pj below sz nil fst_conv snd_conv append.simps)
  from p0 have mem: "?it \<in> set (fst (scanDirectory ?root COMMON_EXCLUDE_DIRS))" by blast
  have nd: "\<not> isDirectory ?it" by simp
  have sb: "sublist (''/'' @ ''node_modules'' @ ''/'') (path ?it)" by code_simp
  from nested_skip_name_not_suppressed
         [where rootDir = ?root and it = ?it and name = "''node_modules''"
            and js = exampleEngine] vn mem nm nd sb
  have "isExcluded exampleEngine (path ?it) defaultExcludes False = Some False" by blast
  then have p3: "isExcluded exampleEngine ''sub/node_modules/x.js'' defaultExcludes False
       = Some False"
    by simp
  have sc: "fst (scanDirectory ?root COMMON_EXCLUDE_DIRS) =
      [\<lparr>path = ''sub'', isDirectory = True, size' = 1000\<rparr>,
       \<lparr>path = ''sub/node_modules'', isDirectory = True, size' = 1000\<rparr>, ?it]"
    by code_simp
  have sm: "sum_list (map size' (filter (counted exampleEngine defaultExcludes)
                (fst (scanDirectory ?root COMMON_EXCLUDE_DIRS))))
              + markdownOverhead (fst (scanDirectory ?root COMMON_EXCLUDE_DIRS)) = 1300"
    unfolding sc by code_simp
  from nested_skip_name_not_suppressed [where rootDir = ?root and js = exampleEngine]
  have "estimateFinalSize exampleEngine (fst (scanDirectory ?root COMMON_EXCLUDE_DIRS))
          defaultExcludes =
        Some (sum_list (map size' (filter (counted exampleEngine defaultExcludes)
                (fst (scanDirectory ?root COMMON_EXCLUDE_DIRS))))
              + markdownOverhead (fst (scanDirectory ?root COMMON_EXCLUDE_DIRS)))"
    by blast
  then have p4: "estimateFinalSize exampleEngine (fst (scanDirectory ?root COMMON_EXCLUDE_DIRS))
          defaultExcludes = Some 1300"
    by (simp only: sm)
  from nested_skip_name_not_suppressed
         [where rootDir = ?root and baseDir = "''sub''" and entry = "''node_modules''"
            and sub = ?nm and skipDirs = COMMON_EXCLUDE_DIRS] en h1
  have "\<lparr>path = path_join ''sub'' ''node_modules'', isDirectory = True,
           size' = getDirSize (Dir ?nm)\<rparr>
          \<in> set (fst (scanDirectory ?root COMMON_EXCLUDE_DIRS))"
    by blast
  then have p5: "\<lparr>path = ''sub/node_modules'', isDirectory = True, size' = 1000\<rparr>
          \<in> set (fst (scanDirectory ?root COMMON_EXCLUDE_DIRS))"
    by (simp only: pj sz)
  from p0 p1 p3 p4 p5 show ?thesis by blast
qed

section \<open>The planner against the estimator\<close>

lemma isExcluded_append:
  "isExcluded js p (ps @ qs) d =
     (case isExcluded js p ps d of
        None \<Rightarrow> None
      | Some b \<Rightarrow> if b then Some True else isExcluded js p qs d)"
  by (induction ps) (auto split: option.splits)

lemma isExcluded_literals:
  "\<forall>a\<in>set as. CHR ''*'' \<notin> set a \<Longrightarrow> isExcluded js p as d = Some (p \<in> set as)"
  by (induction as) (auto simp: isPathExcluded_literal)

text \<open>The files an exclude list leaves in: the test of the loop body, as a predicate.\<close>

lemma forEach_totalSize_iff:
  "forEach_totalSize js items ps acc = Some t \<longleftrightarrow>
     (\<forall>it\<in>set items. \<not> isDirectory it \<longrightarrow> isExcluded js (path it) ps False \<noteq> None)
     \<and> t = acc + sum_list (map size'
           (filter (\<lambda>it. \<not> isDirectory it \<and> isExcluded js (path it) ps False = Some False) items))"
proof (induction items arbitrary: acc)
  case Nil
  show ?case by auto
next
  case (Cons it items)
  show ?case
  proof (cases "isDirectory it")
    case True
    then show ?thesis using Cons [of acc] by simp
  next
    case False
    show ?thesis
    proof (cases "isExcluded js (path it) ps False")
      case None
      with False show ?thesis by simp
    next
      case (Some b)
      show ?thesis
      proof (cases b)
        case True
        with Some False show ?thesis using Cons [of acc] by auto
      next
        case nb: False
        with Some False show ?thesis using Cons [of "acc + size' it"] by (auto simp: algebra_simps)
      qed
    qed
  qed
qed

lemma sum_list_filter_split:
  "sum_list (map f (filter P xs)) + sum_list (map f (filter (\<lambda>x. \<not> P x) xs)) =
     (sum_list (map f xs) :: int)"
  by (induction xs) auto

lemma mapThrowing_filter:
  assumes "mapThrowing (fileChoice js ps) xs = Some ys"
  shows "filter (\<lambda>c. \<not> checked c) ys =
     map (\<lambda>it. \<lparr>value' = path it, csize = size' it, checked = False\<rparr>)
       (filter (\<lambda>it. isExcluded js (path it) ps False = Some False) xs)"
  using assms
proof (induction xs arbitrary: ys)
  case Nil
  then show ?case by simp
next
  case (Cons x xs)
  from Cons.prems obtain c cs where c: "fileChoice js ps x = Some c"
    and cs: "mapThrowing (fileChoice js ps) xs = Some cs" and ys: "ys = c # cs"
    by (auto split: option.splits)
  from c obtain b where b: "isExcluded js (path x) ps False = Some b"
    "c = \<lparr>value' = path x, csize = size' x, checked = b\<rparr>"
    by (auto simp: fileChoice_def)
  from Cons.IH [OF cs] b ys show ?case by (cases b) simp_all
qed

lemma candidates_mset:
  assumes "createSelectionChoices js items ps = Some (fileChoices, directoryChoices)"
  shows "mset (filesToConsider fileChoices) =
     mset (map (\<lambda>it. \<lparr>value' = path it, csize = size' it, checked = False\<rparr>)
       (filter (\<lambda>it. \<not> isDirectory it \<and> isExcluded js (path it) ps False = Some False) items))"
proof -
  from assms have m: "mapThrowing (fileChoice js ps)
     (sort_key (\<lambda>a. - size' a) (filter (\<lambda>it. \<not> isDirectory it) items)) = Some fileChoices"
    by (auto simp: createSelectionChoices_def split: option.splits)
  have "mset (filesToConsider fileChoices) = mset (filter (\<lambda>c. \<not> checked c) fileChoices)"
    by (simp add: filesToConsider_def)
  also have "\<dots> = mset (map (\<lambda>it. \<lparr>value' = path it, csize = size' it, checked = False\<rparr>)
       (filter (\<lambda>it. isExcluded js (path it) ps False = Some False)
          (sort_key (\<lambda>a. - size' a) (filter (\<lambda>it. \<not> isDirectory it) items))))"
    by (simp only: mapThrowing_filter [OF m])
  also have "\<dots> = mset (map (\<lambda>it. \<lparr>value' = path it, csize = size' it, checked = False\<rparr>)
       (filter (\<lambda>it. \<not> isDirectory it \<and> isExcluded js (path it) ps False = Some False) items))"
    by (simp add: filter_filter_mset conj_commute)
  finally show ?thesis .
qed

lemma sum_list_mset_cong:
  "mset xs = mset ys \<Longrightarrow> sum_list (map f xs) = (sum_list (map f ys) :: int)"
proof -
  assume "mset xs = mset ys"
  then have "mset (map f xs) = mset (map f ys)" by simp
  then have "sum_mset (mset (map f xs)) = sum_mset (mset (map f ys))" by (rule arg_cong)
  then show ?thesis by (simp only: sum_mset_sum_list)
qed

lemma chosen_sum:
  fixes U :: "item list" and cands :: "choice list"
  defines "g \<equiv> (\<lambda>it. \<lparr>value' = path it, csize = size' it, checked = False\<rparr>)"
  assumes d: "distinct (map path U)" and ms: "mset cands = mset (map g U)"
  shows "sum_list (map size' (filter (\<lambda>it. path it \<in> set (map value' (take k cands))) U)) =
         sum_list (map csize (take k cands))"
proof -
  let ?T = "take k cands"
  have pg: "map path U = map value' (map g U)" by (simp add: g_def)
  from d have "distinct (map value' (map g U))" by (simp only: pg)
  then have dg: "distinct (map g U)" by (simp only: distinct_map [of value'])
  from dg have dc: "distinct cands" by (simp only: mset_eq_imp_distinct_iff [OF ms])
  then have dT: "distinct ?T" by simp
  have sT: "set ?T \<subseteq> set (map g U)"
    using set_take_subset [of k cands] mset_eq_setD [OF ms] by blast
  have key: "(path it \<in> set (map value' ?T)) = (g it \<in> set ?T)" if it: "it \<in> set U" for it
  proof
    assume "path it \<in> set (map value' ?T)"
    then obtain t where t: "t \<in> set ?T" "value' t = path it" by auto
    with sT obtain it' where it': "it' \<in> set U" "t = g it'" by auto
    with t have "path it' = path it" by (simp add: g_def)
    with d it it' have "it' = it" by (meson distinct_map inj_onD)
    with it' t show "g it \<in> set ?T" by simp
  next
    assume "g it \<in> set ?T"
    then have "value' (g it) \<in> value' ` set ?T" by (rule imageI)
    then show "path it \<in> set (map value' ?T)" by (simp add: g_def)
  qed
  have "filter (\<lambda>it. path it \<in> set (map value' ?T)) U = filter (\<lambda>it. g it \<in> set ?T) U"
  proof (rule filter_cong)
    show "U = U" by (rule refl)
  next
    fix x assume "x \<in> set U"
    then show "(path x \<in> set (map value' ?T)) = (g x \<in> set ?T)" by (rule key)
  qed
  then have f1: "map g (filter (\<lambda>it. path it \<in> set (map value' ?T)) U) =
             filter (\<lambda>c. c \<in> set ?T) (map g U)"
    by (simp add: filter_map comp_def)
  have df: "distinct (filter (\<lambda>c. c \<in> set ?T) (map g U))" using dg by simp
  have sf: "set (filter (\<lambda>c. c \<in> set ?T) (map g U)) = set ?T" using sT by auto
  from set_eq_iff_mset_eq_distinct [OF df dT] sf
  have ms': "mset (filter (\<lambda>c. c \<in> set ?T) (map g U)) = mset ?T" by blast
  have "sum_list (map size' (filter (\<lambda>it. path it \<in> set (map value' ?T)) U)) =
        sum_list (map csize (map g (filter (\<lambda>it. path it \<in> set (map value' ?T)) U)))"
    by (simp add: g_def comp_def)
  also have "\<dots> = sum_list (map csize (filter (\<lambda>c. c \<in> set ?T) (map g U)))"
    by (simp only: f1)
  also have "\<dots> = sum_list (map csize ?T)"
    using ms' by (rule sum_list_mset_cong)
  finally show ?thesis .
qed

lemma autoExcludeFiles_prefix:
  "\<exists>k. autoExcludeFiles choices initialSize sizeLimit autoExclude =
     (map value' (take k (filesToConsider choices)),
      initialSize - sum_list (map csize (take k (filesToConsider choices))))"
proof (cases "autoExclude \<and> initialSize > sizeLimit")
  case True
  with autoExclude_loop_prefix
         [of "filesToConsider choices" "real_of_int sizeLimit * 0.95" "[]" initialSize]
  show ?thesis by (auto simp: autoExcludeFiles_def)
next
  case False
  then have "autoExcludeFiles choices initialSize sizeLimit autoExclude = ([], initialSize)"
    unfolding autoExcludeFiles_def by (simp only: if_False)
  then have "autoExcludeFiles choices initialSize sizeLimit autoExclude =
     (map value' (take 0 (filesToConsider choices)),
      initialSize - sum_list (map csize (take 0 (filesToConsider choices))))"
    by simp
  then show ?thesis by blast
qed

lemma mapThrowing_defined:
  "\<forall>x\<in>set xs. f x \<noteq> None \<Longrightarrow> mapThrowing f xs \<noteq> None"
  by (induction xs) (auto split: option.splits)

lemma isExcluded_returns:
  "\<not> list_ex (throwsOn js) patterns \<Longrightarrow> isExcluded js itemPath patterns isDir \<noteq> None"
  using isExcluded_throws [of js itemPath patterns isDir] by blast

lemma createSelectionChoices_returns:
  assumes "\<not> list_ex (throwsOn js) ps"
  shows "createSelectionChoices js items ps \<noteq> None"
proof -
  have f: "mapThrowing (fileChoice js ps) xs \<noteq> None" for xs
    by (rule mapThrowing_defined) (simp add: fileChoice_def isExcluded_returns [OF assms])
  have d: "mapThrowing (directoryChoice js ps) xs \<noteq> None" for xs
    by (rule mapThrowing_defined) (simp add: directoryChoice_def isExcluded_returns [OF assms])
  from f [of "sort_key (\<lambda>a. - size' a) (filter (\<lambda>it. \<not> isDirectory it) items)"]
       d [of "sort_key (\<lambda>a. - size' a) (filter (\<lambda>it. isDirectory it) items)"]
  show ?thesis by (auto simp: createSelectionChoices_def split: option.splits)
qed

lemma estimateFinalSize_returns:
  "\<not> list_ex (throwsOn js) ps \<Longrightarrow> estimateFinalSize js items ps \<noteq> None"
  using estimateFinalSize_throws [of js items ps] by blast

text \<open>
  Claim C10. The remaining size the planner reports agrees with the estimator, for every
  baseline pattern list and every engine. Let the paths of the items be pairwise distinct
  and without an asterisk (so none ends in \<open>/**\<close>). If the estimator returns
  \<open>currentSize\<close> under the baseline patterns, the selection choices are built from the
  same items and patterns, and the planner, run on the file choices, returns the paths
  \<open>A\<close> and reports \<open>remaining\<close>, then the estimate under the baseline followed by
  \<open>A\<close> is \<open>remaining\<close>, which is \<open>currentSize\<close> minus the sizes of the files
  whose paths are in \<open>A\<close>. The estimator and the selection choices do return whenever
  the constructor of regular expressions throws on no baseline pattern, and then the
  agreement holds of what they return, for every size limit.
\<close>

theorem planner_remaining_is_estimate:
  assumes dp: "distinct (map path items)"
    and ns: "\<forall>it\<in>set items. CHR ''*'' \<notin> set (path it)"
  shows "(estimateFinalSize js items ps = Some currentSize
          \<and> createSelectionChoices js items ps = Some (fileChoices, directoryChoices)
          \<and> autoExcludeFiles fileChoices currentSize sizeLimit autoExclude = (A, remaining) \<longrightarrow>
          estimateFinalSize js items (ps @ A) = Some remaining
          \<and> remaining = currentSize
               - sum_list (map size' (filter (\<lambda>it. path it \<in> set A) items)))
       \<and> (\<not> list_ex (throwsOn js) ps \<longrightarrow>
           (\<exists>cur fcs dcs.
              estimateFinalSize js items ps = Some cur
              \<and> createSelectionChoices js items ps = Some (fcs, dcs)
              \<and> estimateFinalSize js items (ps @ fst (autoExcludeFiles fcs cur limit enabled))
                  = Some (snd (autoExcludeFiles fcs cur limit enabled))
              \<and> snd (autoExcludeFiles fcs cur limit enabled) = cur
                  - sum_list (map size'
                      (filter (\<lambda>it. path it \<in> set (fst (autoExcludeFiles fcs cur limit enabled)))
                         items))))"
proof -
  have main: "estimateFinalSize js items (ps @ A) = Some remaining
         \<and> remaining = currentSize - sum_list (map size' (filter (\<lambda>it. path it \<in> set A) items))"
    if est: "estimateFinalSize js items ps = Some currentSize"
      and cs: "createSelectionChoices js items ps = Some (fileChoices, directoryChoices)"
      and pl: "autoExcludeFiles fileChoices currentSize sizeLimit autoExclude = (A, remaining)"
    for currentSize fileChoices directoryChoices sizeLimit autoExclude A remaining
  proof -
    let ?Q = "\<lambda>it. \<not> isDirectory it \<and> isExcluded js (path it) ps False = Some False"
    let ?U = "filter ?Q items"
    let ?cands = "filesToConsider fileChoices"
    from est obtain t where t: "forEach_totalSize js items ps 0 = Some t"
      and cur: "currentSize = t + markdownOverhead items"
      by (auto simp: estimateFinalSize_def split: option.splits)
    from t have defd: "\<forall>it\<in>set items. \<not> isDirectory it \<longrightarrow> isExcluded js (path it) ps False \<noteq> None"
      and tsum: "t = sum_list (map size' ?U)"
      by (simp_all add: forEach_totalSize_iff)
    from autoExcludeFiles_prefix [of fileChoices currentSize sizeLimit autoExclude] pl
    obtain k where A: "A = map value' (take k ?cands)"
      and rem: "remaining = currentSize - sum_list (map csize (take k ?cands))"
      by auto
    have ms: "mset ?cands =
       mset (map (\<lambda>it. \<lparr>value' = path it, csize = size' it, checked = False\<rparr>) ?U)"
      using cs by (rule candidates_mset)
    have dU: "distinct (map path ?U)" using dp by (rule distinct_map_filter)
    have chosen: "sum_list (map size' (filter (\<lambda>it. path it \<in> set A) ?U)) =
           sum_list (map csize (take k ?cands))"
      unfolding A using dU ms by (rule chosen_sum)
    have AU: "\<exists>u\<in>set ?U. path u = a" if "a \<in> set A" for a
    proof -
      from that obtain c where c: "c \<in> set ?cands" "a = value' c"
        unfolding A by (auto dest: in_set_takeD)
      from c(1) have "c \<in># mset ?cands" by simp
      then have "c \<in> set (map (\<lambda>it. \<lparr>value' = path it, csize = size' it, checked = False\<rparr>) ?U)"
        unfolding ms by (simp only: set_mset_mset)
      with c(2) show ?thesis by auto
    qed
    have lit: "\<forall>a\<in>set A. CHR ''*'' \<notin> set a"
    proof
      fix a assume "a \<in> set A"
      from AU [OF this] obtain u where "u \<in> set items" "path u = a" by auto
      with ns show "CHR ''*'' \<notin> set a" by auto
    qed
    have inA: "?Q it" if "it \<in> set items" "path it \<in> set A" for it
    proof -
      from AU [OF that(2)] obtain u where u: "u \<in> set items" "?Q u" "path u = path it" by auto
      with dp that(1) have "u = it" by (meson distinct_map inj_onD)
      with u show ?thesis by simp
    qed
    have exA: "isExcluded js (path it) (ps @ A) False =
        (case isExcluded js (path it) ps False of
           None \<Rightarrow> None
         | Some b \<Rightarrow> if b then Some True else Some (path it \<in> set A))" for it
      by (simp only: isExcluded_append isExcluded_literals [OF lit])
    have defd': "\<forall>it\<in>set items. \<not> isDirectory it \<longrightarrow> isExcluded js (path it) (ps @ A) False \<noteq> None"
      using defd by (auto simp: exA split: option.splits)
    have filt: "filter (\<lambda>it. \<not> isDirectory it \<and> isExcluded js (path it) (ps @ A) False = Some False) items
          = filter (\<lambda>it. \<not> path it \<in> set A) ?U"
    proof -
      have eq: "(\<not> isDirectory it \<and> isExcluded js (path it) (ps @ A) False = Some False)
            = (?Q it \<and> \<not> path it \<in> set A)" for it
        by (auto simp: exA split: option.splits if_splits)
      show ?thesis by (simp add: eq)
    qed
    have "forEach_totalSize js items (ps @ A) 0 =
            Some (sum_list (map size' (filter (\<lambda>it. \<not> path it \<in> set A) ?U)))"
      using defd' by (simp add: forEach_totalSize_iff filt)
    moreover have "sum_list (map size' (filter (\<lambda>it. \<not> path it \<in> set A) ?U)) =
        t - sum_list (map csize (take k ?cands))"
      using sum_list_filter_split [of size' "\<lambda>it. path it \<in> set A" ?U] chosen tsum by simp
    ultimately have p1: "estimateFinalSize js items (ps @ A) = Some remaining"
      using cur rem by (simp add: estimateFinalSize_def)
    have "filter (\<lambda>it. path it \<in> set A) items = filter (\<lambda>it. path it \<in> set A) ?U"
    proof -
      have "filter (\<lambda>it. path it \<in> set A) items = filter (\<lambda>it. ?Q it \<and> path it \<in> set A) items"
      proof (rule filter_cong)
        show "items = items" by (rule refl)
      next
        fix x assume "x \<in> set items"
        with inA [of x] show "(path x \<in> set A) = (?Q x \<and> path x \<in> set A)" by blast
      qed
      then show ?thesis by simp
    qed
    with chosen rem have p2: "remaining = currentSize -
        sum_list (map size' (filter (\<lambda>it. path it \<in> set A) items))" by simp
    from p1 p2 show ?thesis by blast
  qed
  have tot: "\<exists>cur fcs dcs.
              estimateFinalSize js items ps = Some cur
              \<and> createSelectionChoices js items ps = Some (fcs, dcs)
              \<and> estimateFinalSize js items (ps @ fst (autoExcludeFiles fcs cur limit enabled))
                  = Some (snd (autoExcludeFiles fcs cur limit enabled))
              \<and> snd (autoExcludeFiles fcs cur limit enabled) = cur
                  - sum_list (map size'
                      (filter (\<lambda>it. path it \<in> set (fst (autoExcludeFiles fcs cur limit enabled)))
                         items))"
    if nt: "\<not> list_ex (throwsOn js) ps"
  proof -
    from estimateFinalSize_returns [OF nt, of items]
    obtain cur where e: "estimateFinalSize js items ps = Some cur" by blast
    from createSelectionChoices_returns [OF nt, of items]
    obtain fcs dcs where c: "createSelectionChoices js items ps = Some (fcs, dcs)" by auto
    have "autoExcludeFiles fcs cur limit enabled =
            (fst (autoExcludeFiles fcs cur limit enabled),
             snd (autoExcludeFiles fcs cur limit enabled))"
      by simp
    from main [OF e c this] e c show ?thesis by blast
  qed
  from main tot show ?thesis by blast
qed

theorem planner_remaining_is_estimate_witness:
  "estimateFinalSize exampleEngine
     [\<lparr>path = ''a.txt'', isDirectory = False, size' = 307200\<rparr>,
      \<lparr>path = ''b.txt'', isDirectory = False, size' = 204800\<rparr>,
      \<lparr>path = ''node_modules'', isDirectory = True, size' = 0\<rparr>]
     (defaultExcludes @ [''a.txt'']) = Some 205100
   \<and> estimateFinalSize exampleEngine
     [\<lparr>path = ''app.js'', isDirectory = False, size' = 1000\<rparr>,
      \<lparr>path = ''big.txt'', isDirectory = False, size' = 500000\<rparr>,
      \<lparr>path = ''small.txt'', isDirectory = False, size' = 2000\<rparr>]
     ([''*.js?''] @ [''big.txt'']) = Some 2300
   \<and> estimateFinalSize exampleEngine
     [\<lparr>path = ''app.js'', isDirectory = False, size' = 1000\<rparr>,
      \<lparr>path = ''big.txt'', isDirectory = False, size' = 500000\<rparr>,
      \<lparr>path = ''small.txt'', isDirectory = False, size' = 2000\<rparr>]
     ([''*.js?''] @ []) = Some 502300"
proof -
  let ?items = "[\<lparr>path = ''a.txt'', isDirectory = False, size' = 307200\<rparr>,
      \<lparr>path = ''b.txt'', isDirectory = False, size' = 204800\<rparr>,
      \<lparr>path = ''node_modules'', isDirectory = True, size' = 0\<rparr>]"
  let ?fcs = "[\<lparr>value' = ''a.txt'', csize = 307200, checked = False\<rparr>,
       \<lparr>value' = ''b.txt'', csize = 204800, checked = False\<rparr>]"
  have dp: "distinct (map path ?items)" by simp
  have ns: "\<forall>it\<in>set ?items. CHR ''*'' \<notin> set (path it)" by simp
  have est: "estimateFinalSize exampleEngine ?items defaultExcludes = Some 512300" by code_simp
  have cs: "createSelectionChoices exampleEngine ?items defaultExcludes =
              Some (?fcs, [(''node_modules/**'', True)])"
    by code_simp
  have pl: "autoExcludeFiles ?fcs 512300 409600 True = ([''a.txt''], 205100)"
    by (simp add: autoExcludeFiles_def filesToConsider_def)
  from planner_remaining_is_estimate [OF dp ns] est cs pl
  have p1: "estimateFinalSize exampleEngine ?items (defaultExcludes @ [''a.txt'']) = Some 205100"
    by blast
  let ?items' = "[\<lparr>path = ''app.js'', isDirectory = False, size' = 1000\<rparr>,
      \<lparr>path = ''big.txt'', isDirectory = False, size' = 500000\<rparr>,
      \<lparr>path = ''small.txt'', isDirectory = False, size' = 2000\<rparr>]"
  let ?fcs' = "[\<lparr>value' = ''big.txt'', csize = 500000, checked = False\<rparr>,
       \<lparr>value' = ''small.txt'', csize = 2000, checked = False\<rparr>,
       \<lparr>value' = ''app.js'', csize = 1000, checked = True\<rparr>]"
  have dp': "distinct (map path ?items')" by simp
  have ns': "\<forall>it\<in>set ?items'. CHR ''*'' \<notin> set (path it)" by simp
  have est': "estimateFinalSize exampleEngine ?items' [''*.js?''] = Some 502300" by code_simp
  have cs': "createSelectionChoices exampleEngine ?items' [''*.js?''] = Some (?fcs', [])"
    by code_simp
  have pl': "autoExcludeFiles ?fcs' 502300 409600 True = ([''big.txt''], 2300)"
    by (simp add: autoExcludeFiles_def filesToConsider_def)
  from planner_remaining_is_estimate [OF dp' ns'] est' cs' pl'
  have p2: "estimateFinalSize exampleEngine ?items' ([''*.js?''] @ [''big.txt'']) = Some 2300"
    by blast
  have nt: "\<not> list_ex (throwsOn exampleEngine) [''*.js?'']" by code_simp
  from planner_remaining_is_estimate
         [OF dp' ns', where js = exampleEngine and ps = "[''*.js?'']" and limit = 1000000
            and enabled = True] nt
  obtain cur fcs dcs where e: "estimateFinalSize exampleEngine ?items' [''*.js?''] = Some cur"
    and c: "createSelectionChoices exampleEngine ?items' [''*.js?''] = Some (fcs, dcs)"
    and r: "estimateFinalSize exampleEngine ?items'
              ([''*.js?''] @ fst (autoExcludeFiles fcs cur 1000000 True))
            = Some (snd (autoExcludeFiles fcs cur 1000000 True))"
    by blast
  from e est' have cur: "cur = 502300" by simp
  from c cs' have fcs: "fcs = ?fcs'" by simp
  have pl2: "autoExcludeFiles ?fcs' 502300 1000000 True = ([], 502300)"
    by (simp add: autoExcludeFiles_def)
  from r have p3: "estimateFinalSize exampleEngine ?items' ([''*.js?''] @ []) = Some 502300"
    unfolding cur fcs pl2 by (simp only: fst_conv snd_conv)
  from p1 p2 p3 show ?thesis by blast
qed

end
